theory Spec2Isabelle
  imports Main "HOL-Library.Word"
begin

unbundle bit_operations_syntax

section \<open>Machine types and kernel constants\<close>

text \<open>
  The driver \<^verbatim>\<open>eizo.c\<close> is C for a 64-bit Linux kernel. A C \<^verbatim>\<open>int\<close> is a 32-bit
  word that is compared with the signed order \<open><s\<close> and read with \<open>sint\<close>; \<^verbatim>\<open>ushort\<close>
  is a 16-bit word, \<^verbatim>\<open>u8\<close> an 8-bit word, \<^verbatim>\<open>size_t\<close> and \<^verbatim>\<open>ssize_t\<close> are 64-bit words.
\<close>

type_synonym u8 = "8 word"
type_synonym ushort = "16 word"
type_synonym s32 = "32 word"
type_synonym size_t = "64 word"
type_synonym ssize_t = "64 word"

text \<open>The errno numbers of \<^verbatim>\<open>include/uapi/asm-generic/errno{-base,}.h\<close> the driver returns.\<close>

definition EPERM :: s32 where "EPERM = 1"
definition ENOMEM :: s32 where "ENOMEM = 12"
definition EINVAL :: s32 where "EINVAL = 22"
definition ERANGE :: s32 where "ERANGE = 34"
definition ENODATA :: s32 where "ENODATA = 61"
definition ECOMM :: s32 where "ECOMM = 70"

section \<open>Data of the driver\<close>

text \<open>
  \<^verbatim>\<open>struct eizo_data\<close> (declared in \<^verbatim>\<open>eizo.h\<close>): the mutex, modelled by whether it
  is held, and the counter.
\<close>

record eizo_data =
  lock :: bool
  counter :: ushort

text \<open>
  The four usage codes are macros of \<^verbatim>\<open>eizo.h\<close>, which is not part of the sources at
  hand; they are a parameter of the model.
\<close>

record eizo_h =
  EIZO_USAGE_BRIGHTNESS :: s32
  EIZO_USAGE_POWER :: s32
  EIZO_USAGE_GAMMA :: s32
  EIZO_USAGE_PROFILE :: s32

datatype hid_report_type = HID_INPUT_REPORT | HID_OUTPUT_REPORT | HID_FEATURE_REPORT

datatype hid_class_request = HID_REQ_GET_REPORT | HID_REQ_SET_REPORT

text \<open>One call of \<^verbatim>\<open>hid_hw_raw_request\<close>: its arguments, the buffer as it is passed in.\<close>

record raw_request =
  reportnum :: u8
  buf :: "u8 list"
  len :: nat
  rtype :: hid_report_type
  reqtype :: hid_class_request

text \<open>
  What the driver does to the outside world, in the order it does it. The log is a ghost
  field of the device state: the driver never reads it.
\<close>

datatype event =
    Kzalloc nat bool
  | Kfree
  | MutexLock
  | MutexUnlock
  | RawRequest raw_request s32
  | HwWait

text \<open>
  The kernel and the monitor are the environment. Its state is a type parameter \<open>'k\<close>;
  its answers are functions of that state, so that any allocator and any device can be
  plugged in:
  \<^item> \<open>kzalloc\<close> says whether the allocation succeeds;
  \<^item> \<open>hid_hw_raw_request\<close> gives the return value and the bytes the transport stores
    into the caller's buffer (a low-level driver may write to the buffer on a
    \<^verbatim>\<open>SET_REPORT\<close> as well as on a \<^verbatim>\<open>GET_REPORT\<close>);
  \<^item> the remaining fields are the calls of the probe function.
\<close>

record 'k kernel =
  kzalloc :: "'k \<Rightarrow> nat \<Rightarrow> bool \<times> 'k"
  hid_hw_raw_request :: "'k \<Rightarrow> raw_request \<Rightarrow> (s32 \<times> u8 list) \<times> 'k"
  devm_kzalloc :: "'k \<Rightarrow> bool \<times> 'k"
  hid_parse :: "'k \<Rightarrow> s32 \<times> 'k"
  hid_hw_start :: "'k \<Rightarrow> s32 \<times> 'k"
  hid_hw_open :: "'k \<Rightarrow> s32 \<times> 'k"
  sysfs_create_group :: "'k \<Rightarrow> s32 \<times> 'k"
  hid_hw_close :: "'k \<Rightarrow> 'k"
  hid_hw_stop :: "'k \<Rightarrow> 'k"

text \<open>
  \<^verbatim>\<open>struct hid_device\<close>, as far as the driver uses it: the driver data pointer
  (\<open>None\<close> is \<^verbatim>\<open>NULL\<close>), the environment's state, and the log.
\<close>

record 'k hid_device =
  drvdata :: "eizo_data option"
  kern :: 'k
  trace :: "event list"

section \<open>Kernel primitives\<close>

definition log_event :: "event \<Rightarrow> 'k hid_device \<Rightarrow> 'k hid_device" where
  "log_event e hdev = hdev\<lparr>trace := trace hdev @ [e]\<rparr>"

definition hid_get_drvdata :: "'k hid_device \<Rightarrow> eizo_data option" where
  "hid_get_drvdata hdev = drvdata hdev"

text \<open>\<^verbatim>\<open>kzalloc(n, GFP_KERNEL)\<close>: \<open>None\<close> is \<^verbatim>\<open>NULL\<close>, otherwise \<open>n\<close> zero bytes.\<close>

definition kzalloc_buf :: "'k kernel \<Rightarrow> 'k hid_device \<Rightarrow> nat \<Rightarrow> u8 list option \<times> 'k hid_device" where
  "kzalloc_buf K hdev n =
     (let (ok, k) = kzalloc K (kern hdev) n
      in (if ok then Some (replicate n 0) else None,
          log_event (Kzalloc n ok) (hdev\<lparr>kern := k\<rparr>)))"

definition kfree :: "'k hid_device \<Rightarrow> 'k hid_device" where
  "kfree hdev = log_event Kfree hdev"

text \<open>
  \<^verbatim>\<open>mutex_lock(&data->lock)\<close> returns once the caller owns the mutex. In a sequential
  run nobody else can release a mutex that is held, so the call never returns: \<open>None\<close>.
  (The driver calls it only after it has checked that the data pointer is not
  \<^verbatim>\<open>NULL\<close>.)
\<close>

definition mutex_lock :: "'k hid_device \<Rightarrow> 'k hid_device option" where
  "mutex_lock hdev =
     (case drvdata hdev of
        None \<Rightarrow> None
      | Some data \<Rightarrow>
          if lock data then None
          else Some (log_event MutexLock (hdev\<lparr>drvdata := Some (data\<lparr>lock := True\<rparr>)\<rparr>)))"

definition mutex_unlock :: "'k hid_device \<Rightarrow> 'k hid_device" where
  "mutex_unlock hdev =
     log_event MutexUnlock
       (hdev\<lparr>drvdata := map_option (\<lambda>data. data\<lparr>lock := False\<rparr>) (drvdata hdev)\<rparr>)"

text \<open>\<^verbatim>\<open>data->counter\<close>, read through the (non-\<^verbatim>\<open>NULL\<close>) driver data pointer.\<close>

definition data_counter :: "'k hid_device \<Rightarrow> ushort" where
  "data_counter hdev = (case drvdata hdev of None \<Rightarrow> 0 | Some data \<Rightarrow> counter data)"

text \<open>
  The transport stores \<open>bytes\<close> at the start of the caller's buffer, at most \<open>n\<close> of them
  and never beyond the buffer's end.
\<close>

definition buf_write :: "u8 list \<Rightarrow> nat \<Rightarrow> u8 list \<Rightarrow> u8 list" where
  "buf_write b n bytes =
     (let m = min (min n (length b)) (length bytes) in take m bytes @ drop m b)"

definition raw_request ::
  "'k kernel \<Rightarrow> 'k hid_device \<Rightarrow> u8 \<Rightarrow> u8 list \<Rightarrow> nat \<Rightarrow> hid_report_type \<Rightarrow> hid_class_request
     \<Rightarrow> s32 \<times> u8 list \<times> 'k hid_device" where
  "raw_request K hdev num report n rt rq =
     (let call = \<lparr>reportnum = num, buf = report, len = n, rtype = rt, reqtype = rq\<rparr>;
          ((ret, bytes), k) = hid_hw_raw_request K (kern hdev) call
      in (ret, buf_write report n bytes, log_event (RawRequest call ret) (hdev\<lparr>kern := k\<rparr>)))"

definition hid_hw_wait :: "'k hid_device \<Rightarrow> 'k hid_device" where
  "hid_hw_wait hdev = log_event HwWait hdev"

section \<open>The report frame\<close>

text \<open>
  \<^verbatim>\<open>(x >> n) & 0xff\<close> on an \<^verbatim>\<open>int\<close>, stored into a \<^verbatim>\<open>u8\<close>. The kernel's compilers
  shift a signed value arithmetically.
\<close>

definition byte_of :: "s32 \<Rightarrow> nat \<Rightarrow> u8" where
  "byte_of x n = ucast (signed_drop_bit n x AND 0xff)"

text \<open>Lines 49-52 and 54-55 of \<^verbatim>\<open>eizo_set_value\<close>, the same as 95-98 and 100-101 of
  \<^verbatim>\<open>eizo_get_value\<close>: usage and counter. The counter is promoted to \<^verbatim>\<open>int\<close>.\<close>

definition put_usage :: "u8 list \<Rightarrow> s32 \<Rightarrow> u8 list" where
  "put_usage report usage =
     report[1 := byte_of usage 0, 2 := byte_of usage 8,
            3 := byte_of usage 16, 4 := byte_of usage 24]"

definition put_counter :: "u8 list \<Rightarrow> s32 \<Rightarrow> u8 list" where
  "put_counter report c = report[5 := byte_of c 0, 6 := byte_of c 8]"

text \<open>Lines 57-60 of \<^verbatim>\<open>eizo_set_value\<close>.\<close>

definition put_value :: "u8 list \<Rightarrow> s32 \<Rightarrow> u8 list" where
  "put_value report v =
     report[7 := byte_of v 0, 8 := byte_of v 8, 9 := byte_of v 16, 10 := byte_of v 24]"

text \<open>
  Line 121 of \<^verbatim>\<open>eizo_get_value\<close>:
  \<^verbatim>\<open>report[7] | (report[8] << 8) | (report[9] << 16) | (report[10] << 24)\<close>, each byte
  promoted to \<^verbatim>\<open>int\<close>; \<open>le32_at report 7\<close> is that expression, and \<open>le32_at\<close> reads the
  same way at another offset. A top byte of 128 or more shifts into the sign bit: the
  kernel is compiled with wrapping signed arithmetic, and the result is the negative
  value with those bits.
\<close>

definition le32_at :: "u8 list \<Rightarrow> nat \<Rightarrow> s32" where
  "le32_at report off =
     ucast (report ! off) OR push_bit 8 (ucast (report ! (off + 1)))
       OR push_bit 16 (ucast (report ! (off + 2)))
       OR push_bit 24 (ucast (report ! (off + 3)))"

definition le16_at :: "u8 list \<Rightarrow> nat \<Rightarrow> ushort" where
  "le16_at report off = ucast (report ! off) OR push_bit 8 (ucast (report ! (off + 1)))"

section \<open>The protocol engine\<close>

text \<open>
  \<^verbatim>\<open>eizo_set_value\<close>. The result is \<open>None\<close> when the call never returns, otherwise the
  return value and the device state. (\<^verbatim>\<open>hid_err\<close> only prints; it is left out.)
\<close>

definition eizo_set_value ::
  "'k kernel \<Rightarrow> 'k hid_device \<Rightarrow> s32 \<Rightarrow> s32 \<Rightarrow> (s32 \<times> 'k hid_device) option" where
  "eizo_set_value K hdev usage val =
     (case hid_get_drvdata hdev of
        None \<Rightarrow> Some (- ENODATA, hdev)
      | Some _ \<Rightarrow>
          (case kzalloc_buf K hdev 39 of
             (None, hdev) \<Rightarrow> Some (- ENOMEM, hdev)
           | (Some report, hdev) \<Rightarrow>
               (case mutex_lock hdev of
                  None \<Rightarrow> None
                | Some hdev \<Rightarrow>
                    (let counter = data_counter hdev;
                         report = put_usage report usage;
                         report = put_counter report (ucast counter);
                         report = put_value report val;
                         (ret, report, hdev) =
                            raw_request K hdev 2 report 39 HID_FEATURE_REPORT HID_REQ_SET_REPORT;
                         hdev = hid_hw_wait hdev
                     in if ret <s 0
                        then (let hdev = mutex_unlock hdev; hdev = kfree hdev
                              in Some (- ECOMM, hdev))
                        else (let hdev = mutex_unlock hdev; hdev = kfree hdev
                              in Some (0, hdev))))))"

text \<open>
  \<^verbatim>\<open>eizo_get_value\<close>. The argument \<open>pv\<close> is what the caller's \<^verbatim>\<open>*value\<close> holds before
  the call; the second component of the result is what it holds afterwards.
\<close>

definition eizo_get_value ::
  "'k kernel \<Rightarrow> 'k hid_device \<Rightarrow> s32 \<Rightarrow> s32 \<Rightarrow> (s32 \<times> s32 \<times> 'k hid_device) option" where
  "eizo_get_value K hdev usage pv =
     (case hid_get_drvdata hdev of
        None \<Rightarrow> Some (- ENODATA, pv, hdev)
      | Some _ \<Rightarrow>
          (case kzalloc_buf K hdev 39 of
             (None, hdev) \<Rightarrow> Some (- ENOMEM, pv, hdev)
           | (Some report, hdev) \<Rightarrow>
               (case mutex_lock hdev of
                  None \<Rightarrow> None
                | Some hdev \<Rightarrow>
                    (let counter = (ucast (data_counter hdev) :: s32);
                         report = put_usage report usage;
                         report = put_counter report counter;
                         (ret, report, hdev) =
                            raw_request K hdev 3 report 39 HID_FEATURE_REPORT HID_REQ_SET_REPORT;
                         hdev = hid_hw_wait hdev
                     in if ret <s 0
                        then (let hdev = mutex_unlock hdev; hdev = kfree hdev
                              in Some (- ECOMM, pv, hdev))
                        else
                          (let (ret, report, hdev) =
                                  raw_request K hdev 3 report 39 HID_FEATURE_REPORT HID_REQ_GET_REPORT;
                               hdev = hid_hw_wait hdev
                           in if ret <s 0
                              then (let hdev = mutex_unlock hdev; hdev = kfree hdev
                                    in Some (- ECOMM, pv, hdev))
                              else (let pv = le32_at report 7;
                                        hdev = mutex_unlock hdev; hdev = kfree hdev
                                    in Some (0, pv, hdev)))))))"

text \<open>The frames the two operations build in their zeroed 39-byte buffers.\<close>

definition set_frame :: "s32 \<Rightarrow> ushort \<Rightarrow> s32 \<Rightarrow> u8 list" where
  "set_frame usage c v =
     put_value (put_counter (put_usage (replicate 39 0) usage) (ucast c)) v"

definition get_frame :: "s32 \<Rightarrow> ushort \<Rightarrow> u8 list" where
  "get_frame usage c = put_counter (put_usage (replicate 39 0) usage) (ucast c)"

text \<open>The three transport calls the operations make, with their literal arguments.\<close>

definition set_call :: "s32 \<Rightarrow> ushort \<Rightarrow> s32 \<Rightarrow> raw_request" where
  "set_call usage c v =
     \<lparr>reportnum = 2, buf = set_frame usage c v, len = 39,
      rtype = HID_FEATURE_REPORT, reqtype = HID_REQ_SET_REPORT\<rparr>"

definition get_write_call :: "s32 \<Rightarrow> ushort \<Rightarrow> raw_request" where
  "get_write_call usage c =
     \<lparr>reportnum = 3, buf = get_frame usage c, len = 39,
      rtype = HID_FEATURE_REPORT, reqtype = HID_REQ_SET_REPORT\<rparr>"

definition get_read_call :: "u8 list \<Rightarrow> raw_request" where
  "get_read_call report =
     \<lparr>reportnum = 3, buf = report, len = 39,
      rtype = HID_FEATURE_REPORT, reqtype = HID_REQ_GET_REPORT\<rparr>"

section \<open>The attribute layer\<close>

text \<open>\<^verbatim>\<open>to_usage\<close>: \<^verbatim>\<open>strcmp(a, b) == 0\<close> is equality of the two strings.\<close>

definition to_usage :: "eizo_h \<Rightarrow> string \<Rightarrow> s32" where
  "to_usage H attr_name =
     (if attr_name = ''brightness'' then EIZO_USAGE_BRIGHTNESS H
      else if attr_name = ''power'' then EIZO_USAGE_POWER H
      else if attr_name = ''gamma'' then EIZO_USAGE_GAMMA H
      else if attr_name = ''profile'' then EIZO_USAGE_PROFILE H
      else - 1)"

text \<open>
  \<^verbatim>\<open>kstrtoint(buf, 10, &value)\<close> of the kernel library (\<^verbatim>\<open>lib/kstrtox.c\<close>), at base
  10. A string is the bytes before its terminating NUL. The digits are accumulated
  without a bound, so the library's overflow flag is the test \<open>2 ^ 64 \<le> v\<close>.
\<close>

definition isdigit :: "char \<Rightarrow> bool" where
  "isdigit c = (48 \<le> (of_char c :: nat) \<and> (of_char c :: nat) \<le> 57)"

fun parse_integer :: "string \<Rightarrow> nat \<Rightarrow> nat \<Rightarrow> nat \<times> nat \<times> string" where
  "parse_integer [] acc rv = (acc, rv, [])"
| "parse_integer (c # s) acc rv =
     (if isdigit c then parse_integer s (acc * 10 + (of_char c - 48)) (Suc rv)
      else (acc, rv, c # s))"

text \<open>\<^verbatim>\<open>_kstrtoull\<close>: digits, then at most one newline, then the end of the string.\<close>

definition kstrtoull_digits :: "string \<Rightarrow> s32 + nat" where
  "kstrtoull_digits s =
     (let (v, rv, rest) = parse_integer s 0 0
      in if 2 ^ 64 \<le> v then Inl (- ERANGE)
         else if rv = 0 then Inl (- EINVAL)
         else (let rest = (case rest of [] \<Rightarrow> [] | c # r \<Rightarrow> if c = CHR 0x0A then r else c # r)
               in if rest \<noteq> [] then Inl (- EINVAL) else Inr v))"

definition kstrtoull :: "string \<Rightarrow> s32 + nat" where
  "kstrtoull s = kstrtoull_digits (case s of [] \<Rightarrow> [] | c # r \<Rightarrow> if c = CHR ''+'' then r else c # r)"

definition kstrtoll :: "string \<Rightarrow> s32 + int" where
  "kstrtoll s =
     (case s of
        [] \<Rightarrow> (case kstrtoull s of Inl e \<Rightarrow> Inl e | Inr v \<Rightarrow> Inr (int v))
      | c # r \<Rightarrow>
          if c = CHR ''-''
          then (case kstrtoull_digits r of
                  Inl e \<Rightarrow> Inl e
                | Inr v \<Rightarrow> if 2 ^ 63 < v then Inl (- ERANGE) else Inr (- int v))
          else (case kstrtoull s of
                  Inl e \<Rightarrow> Inl e
                | Inr v \<Rightarrow> if 2 ^ 63 \<le> v then Inl (- ERANGE) else Inr (int v)))"

text \<open>The result is the return value and the new content of \<^verbatim>\<open>*res\<close>, which was \<open>pv\<close>.\<close>

definition kstrtoint :: "string \<Rightarrow> s32 \<Rightarrow> s32 \<times> s32" where
  "kstrtoint s pv =
     (case kstrtoll s of
        Inl e \<Rightarrow> (e, pv)
      | Inr t \<Rightarrow> if t < - (2 ^ 31) \<or> 2 ^ 31 \<le> t then (- ERANGE, pv) else (0, word_of_int t))"

text \<open>\<^verbatim>\<open>sprintf(buf, "%d\n", value)\<close>: the decimal digits, a minus sign first when the
  value is negative, and a newline.\<close>

function dec_digits :: "nat \<Rightarrow> string" where
  "dec_digits n =
     (if n < 10 then [char_of (48 + n)]
      else dec_digits (n div 10) @ [char_of (48 + n mod 10)])"
  by pat_completeness auto
termination
  by (relation "measure (\<lambda>n. n)") auto

declare dec_digits.simps [simp del]

definition sprintf_d_nl :: "s32 \<Rightarrow> string" where
  "sprintf_d_nl v =
     (if sint v < 0 then CHR ''-'' # dec_digits (nat (- sint v))
      else dec_digits (nat (sint v))) @ [CHR 0x0A]"

text \<open>
  \<^verbatim>\<open>eizo_attr_store\<close>. \<open>attr_name\<close> is \<^verbatim>\<open>attr->attr.name\<close>; \<open>value0\<close> is what the
  uninitialised local \<^verbatim>\<open>value\<close> happens to hold. \<^verbatim>\<open>to_hid_device\<close> only converts the
  pointer. The \<^verbatim>\<open>int\<close> error codes are converted to \<^verbatim>\<open>ssize_t\<close> on return.
\<close>

definition eizo_attr_store ::
  "'k kernel \<Rightarrow> eizo_h \<Rightarrow> 'k hid_device \<Rightarrow> string \<Rightarrow> string \<Rightarrow> size_t \<Rightarrow> s32
     \<Rightarrow> (ssize_t \<times> 'k hid_device) option" where
  "eizo_attr_store K H hdev attr_name buffer count value0 =
     (let (res, val) = kstrtoint buffer value0
      in if res <s 0 then Some (scast (- EINVAL), hdev)
         else (let usage = to_usage H attr_name
               in if usage <s 0 then Some (scast (- EINVAL), hdev)
                  else (case eizo_set_value K hdev usage val of
                          None \<Rightarrow> None
                        | Some (res, hdev) \<Rightarrow>
                            if res <s 0 then Some (scast (- EPERM), hdev)
                            else Some (count, hdev))))"

text \<open>
  \<^verbatim>\<open>eizo_attr_show\<close>. The result carries the return value and the content of the
  output buffer, which was \<open>buffer\<close> before the call.
\<close>

definition eizo_attr_show ::
  "'k kernel \<Rightarrow> eizo_h \<Rightarrow> 'k hid_device \<Rightarrow> string \<Rightarrow> string \<Rightarrow> s32
     \<Rightarrow> (ssize_t \<times> string \<times> 'k hid_device) option" where
  "eizo_attr_show K H hdev attr_name buffer value0 =
     (let usage = to_usage H attr_name
      in if usage <s 0 then Some (scast (- EINVAL), buffer, hdev)
         else (case eizo_get_value K hdev usage value0 of
                 None \<Rightarrow> None
               | Some (ret, val, hdev) \<Rightarrow>
                   if ret <s 0 then Some (scast (- ENODATA), buffer, hdev)
                   else (let s = sprintf_d_nl val
                         in Some (scast (word_of_nat (length s) :: s32), s, hdev))))"

section \<open>Attaching the device\<close>

text \<open>\<^verbatim>\<open>eizo_data_init\<close>: \<^verbatim>\<open>mutex_init\<close> leaves the mutex free.\<close>

definition eizo_data_init :: "eizo_data \<Rightarrow> eizo_data" where
  "eizo_data_init data = data\<lparr>lock := False, counter := 0x0001\<rparr>"

text \<open>
  \<^verbatim>\<open>eizo_hid_driver_probe\<close>. \<^verbatim>\<open>devm_kzalloc\<close> gives zeroed driver data. The labels
  \<^verbatim>\<open>close\<close>, \<^verbatim>\<open>stop\<close> and \<^verbatim>\<open>exit\<close> are the clean-up calls of each failing branch.
\<close>

definition eizo_hid_driver_probe :: "'k kernel \<Rightarrow> 'k hid_device \<Rightarrow> s32 \<times> 'k hid_device" where
  "eizo_hid_driver_probe K hdev =
     (let (ok, k) = devm_kzalloc K (kern hdev)
      in if \<not> ok then (- ENOMEM, hdev\<lparr>kern := k\<rparr>)
         else
           (let data = \<lparr>lock = False, counter = 0\<rparr>;
                (retval, k) = hid_parse K k
            in if retval <s 0 then (retval, hdev\<lparr>kern := k\<rparr>)
               else
                 (let (retval, k) = hid_hw_start K k
                  in if retval <s 0 then (retval, hdev\<lparr>kern := k\<rparr>)
                     else
                       (let (retval, k) = hid_hw_open K k
                        in if retval <s 0 then (retval, hdev\<lparr>kern := hid_hw_stop K k\<rparr>)
                           else
                             (let (retval, k) = sysfs_create_group K k
                              in if retval <s 0
                                 then (retval, hdev\<lparr>kern := hid_hw_stop K (hid_hw_close K k)\<rparr>)
                                 else (let data = eizo_data_init data
                                       in (0, hdev\<lparr>drvdata := Some data, kern := k\<rparr>)))))))"

section \<open>A device's lifetime\<close>

text \<open>The entry points that can be called on an attached device, and a run of calls.\<close>

datatype call =
    SetValue s32 s32
  | GetValue s32 s32
  | AttrStore string string size_t s32
  | AttrShow string string s32

definition run_call :: "'k kernel \<Rightarrow> eizo_h \<Rightarrow> 'k hid_device \<Rightarrow> call \<Rightarrow> 'k hid_device option" where
  "run_call K H hdev c =
     (case c of
        SetValue usage v \<Rightarrow> map_option snd (eizo_set_value K hdev usage v)
      | GetValue usage pv \<Rightarrow> map_option (\<lambda>r. snd (snd r)) (eizo_get_value K hdev usage pv)
      | AttrStore name buffer count v0 \<Rightarrow>
          map_option snd (eizo_attr_store K H hdev name buffer count v0)
      | AttrShow name buffer v0 \<Rightarrow>
          map_option (\<lambda>r. snd (snd r)) (eizo_attr_show K H hdev name buffer v0))"

fun run_calls :: "'k kernel \<Rightarrow> eizo_h \<Rightarrow> 'k hid_device \<Rightarrow> call list \<Rightarrow> 'k hid_device option" where
  "run_calls K H hdev [] = Some hdev"
| "run_calls K H hdev (c # cs) =
     (case run_call K H hdev c of
        None \<Rightarrow> None
      | Some hdev' \<Rightarrow> run_calls K H hdev' cs)"

text \<open>What a call appended to the log: the events of \<open>hdev'\<close> that \<open>hdev\<close> did not have.\<close>

definition new_events :: "'k hid_device \<Rightarrow> 'k hid_device \<Rightarrow> event list" where
  "new_events hdev hdev' = drop (length (trace hdev)) (trace hdev')"

text \<open>The mutex operations in a log.\<close>

definition lock_events :: "event list \<Rightarrow> event list" where
  "lock_events es = filter (\<lambda>e. e = MutexLock \<or> e = MutexUnlock) es"

text \<open>The transport calls in a log, in order, each with its return value.\<close>

fun transport_calls :: "event list \<Rightarrow> (raw_request \<times> s32) list" where
  "transport_calls [] = []"
| "transport_calls (RawRequest c r # es) = (c, r) # transport_calls es"
| "transport_calls (_ # es) = transport_calls es"

text \<open>
  Two properties used for a device's lifetime: every frame that a log shows being sent
  (the buffer of a \<^verbatim>\<open>SET_REPORT\<close>) carries \<open>c\<close> in bytes 5-6; the device has its driver
  data, with the mutex free and the counter at \<open>c\<close>.
\<close>

definition counter_frames :: "ushort \<Rightarrow> event list \<Rightarrow> bool" where
  "counter_frames c es \<longleftrightarrow>
     (\<forall>(call, r) \<in> set (transport_calls es).
        reqtype call = HID_REQ_SET_REPORT \<longrightarrow> le16_at (buf call) 5 = c)"

definition session_idle :: "'k hid_device \<Rightarrow> ushort \<Rightarrow> bool" where
  "session_idle hdev c \<longleftrightarrow> (\<exists>d. drvdata hdev = Some d \<and> \<not> lock d \<and> counter d = c)"

section \<open>Concurrent calls\<close>

text \<open>
  Several calls of \<^verbatim>\<open>eizo_set_value\<close> and \<^verbatim>\<open>eizo_get_value\<close> may be in progress on
  one device at once. Each call in progress is an operation: the call with its arguments
  (\<open>OpSet usage value\<close>, or \<open>OpGet usage pv\<close> where \<open>pv\<close> is what \<^verbatim>\<open>*value\<close> holds), and
  the statement it has reached, with its local variables.
\<close>

datatype opcall = OpSet s32 s32 | OpGet s32 s32

text \<open>
  The statements of the two functions at which a call can be, one per kernel call:
  \<^item> \<open>P_entry\<close>: at \<^verbatim>\<open>hid_get_drvdata\<close> (lines 32, 81);
  \<^item> \<open>P_alloc\<close>: at \<^verbatim>\<open>kzalloc\<close> (lines 40, 87);
  \<^item> \<open>P_lock report\<close>: at \<^verbatim>\<open>mutex_lock\<close> (lines 46, 92);
  \<^item> \<open>P_build report\<close>: at the read of the counter and the byte stores (lines 47-60, 93-101);
  \<^item> \<open>P_request report\<close>: at the first \<^verbatim>\<open>hid_hw_raw_request\<close> (lines 62, 103);
  \<^item> \<open>P_wait ret report\<close>: at \<^verbatim>\<open>hid_hw_wait\<close> and the test of \<open>ret\<close> (lines 63-64, 104-105);
  \<^item> \<open>P_request2 report\<close>, \<open>P_wait2 ret report\<close>: the same for the read of a get
    (lines 112-114), followed by the decoding of line 121;
  \<^item> \<open>P_unlock r v\<close>: at \<^verbatim>\<open>mutex_unlock\<close>, with the return value and \<^verbatim>\<open>*value\<close>;
  \<^item> \<open>P_free r v\<close>: at \<^verbatim>\<open>kfree\<close>;
  \<^item> \<open>P_done r v\<close>: returned.
\<close>

datatype pc =
    P_entry
  | P_alloc
  | P_lock "u8 list"
  | P_build "u8 list"
  | P_request "u8 list"
  | P_wait s32 "u8 list"
  | P_request2 "u8 list"
  | P_wait2 s32 "u8 list"
  | P_unlock s32 s32
  | P_free s32 s32
  | P_done s32 s32

text \<open>What \<^verbatim>\<open>*value\<close> holds when the call starts; a set has no such argument.\<close>

definition out0 :: "opcall \<Rightarrow> s32" where
  "out0 op = (case op of OpSet usage v \<Rightarrow> 0 | OpGet usage pv \<Rightarrow> pv)"

text \<open>The report identifier of the first transport call: 2 in a set, 3 in a get.\<close>

definition op_reportnum :: "opcall \<Rightarrow> u8" where
  "op_reportnum op = (case op of OpSet usage v \<Rightarrow> 2 | OpGet usage pv \<Rightarrow> 3)"

text \<open>The byte stores of lines 49-60 (set) and 95-101 (get).\<close>

definition op_build :: "opcall \<Rightarrow> ushort \<Rightarrow> u8 list \<Rightarrow> u8 list" where
  "op_build op c report =
     (case op of
        OpSet usage v \<Rightarrow> put_value (put_counter (put_usage report usage) (ucast c)) v
      | OpGet usage pv \<Rightarrow> put_counter (put_usage report usage) (ucast c))"

text \<open>
  One statement of a call: the shared device state and the statement reached next. The
  kernel calls are the same definitions the sequential functions use. \<open>None\<close>: the call
  cannot move (it waits for the mutex, or it has returned).
\<close>

fun op_step :: "'k kernel \<Rightarrow> opcall \<Rightarrow> 'k hid_device \<Rightarrow> pc \<Rightarrow> ('k hid_device \<times> pc) option" where
  "op_step K op hdev P_entry =
     (case hid_get_drvdata hdev of
        None \<Rightarrow> Some (hdev, P_done (- ENODATA) (out0 op))
      | Some _ \<Rightarrow> Some (hdev, P_alloc))"
| "op_step K op hdev P_alloc =
     (case kzalloc_buf K hdev 39 of
        (None, hdev) \<Rightarrow> Some (hdev, P_done (- ENOMEM) (out0 op))
      | (Some report, hdev) \<Rightarrow> Some (hdev, P_lock report))"
| "op_step K op hdev (P_lock report) =
     (case mutex_lock hdev of
        None \<Rightarrow> None
      | Some hdev \<Rightarrow> Some (hdev, P_build report))"
| "op_step K op hdev (P_build report) =
     (let counter = data_counter hdev
      in Some (hdev, P_request (op_build op counter report)))"
| "op_step K op hdev (P_request report) =
     (let (ret, report, hdev) =
            raw_request K hdev (op_reportnum op) report 39 HID_FEATURE_REPORT HID_REQ_SET_REPORT
      in Some (hdev, P_wait ret report))"
| "op_step K op hdev (P_wait ret report) =
     (let hdev = hid_hw_wait hdev
      in if ret <s 0 then Some (hdev, P_unlock (- ECOMM) (out0 op))
         else (case op of
                 OpSet usage v \<Rightarrow> Some (hdev, P_unlock 0 (out0 op))
               | OpGet usage pv \<Rightarrow> Some (hdev, P_request2 report)))"
| "op_step K op hdev (P_request2 report) =
     (let (ret, report, hdev) =
            raw_request K hdev 3 report 39 HID_FEATURE_REPORT HID_REQ_GET_REPORT
      in Some (hdev, P_wait2 ret report))"
| "op_step K op hdev (P_wait2 ret report) =
     (let hdev = hid_hw_wait hdev
      in if ret <s 0 then Some (hdev, P_unlock (- ECOMM) (out0 op))
         else Some (hdev, P_unlock 0 (le32_at report 7)))"
| "op_step K op hdev (P_unlock r v) = Some (mutex_unlock hdev, P_free r v)"
| "op_step K op hdev (P_free r v) = Some (kfree hdev, P_done r v)"
| "op_step K op hdev (P_done r v) = None"

text \<open>
  The device, the operations in progress, and the transport calls made so far, each
  tagged with the index of the operation that made it.
\<close>

record 'k system =
  device :: "'k hid_device"
  ops :: "(opcall \<times> pc) list"
  tlog :: "(nat \<times> raw_request \<times> s32) list"

text \<open>Operation \<open>i\<close> executes its next statement.\<close>

definition sys_step :: "'k kernel \<Rightarrow> 'k system \<Rightarrow> nat \<Rightarrow> 'k system option" where
  "sys_step K s i =
     (if i < length (ops s)
      then (case ops s ! i of
              (op, p) \<Rightarrow>
                (case op_step K op (device s) p of
                   None \<Rightarrow> None
                 | Some (hdev', p') \<Rightarrow>
                     Some \<lparr>device = hdev', ops = (ops s)[i := (op, p')],
                           tlog = tlog s @ map (\<lambda>(c, r). (i, c, r))
                                    (transport_calls (new_events (device s) hdev'))\<rparr>))
      else None)"

text \<open>
  An interleaving is a schedule: the list of the operations that get to move, in order.
  An operation that cannot move when its turn comes is skipped.
\<close>

fun run_schedule :: "'k kernel \<Rightarrow> 'k system \<Rightarrow> nat list \<Rightarrow> 'k system" where
  "run_schedule K s [] = s"
| "run_schedule K s (i # sched) =
     run_schedule K (case sys_step K s i of None \<Rightarrow> s | Some s' \<Rightarrow> s') sched"

text \<open>The statements between \<^verbatim>\<open>mutex_lock\<close> and \<^verbatim>\<open>mutex_unlock\<close>.\<close>

definition in_cs :: "pc \<Rightarrow> bool" where
  "in_cs p =
     (case p of
        P_build _ \<Rightarrow> True | P_request _ \<Rightarrow> True | P_wait _ _ \<Rightarrow> True
      | P_request2 _ \<Rightarrow> True | P_wait2 _ _ \<Rightarrow> True | P_unlock _ _ \<Rightarrow> True
      | _ \<Rightarrow> False)"

text \<open>Somebody holds the mutex of the driver data.\<close>

definition mutex_held :: "'k hid_device \<Rightarrow> bool" where
  "mutex_held hdev = (case drvdata hdev of None \<Rightarrow> False | Some data \<Rightarrow> lock data)"

text \<open>Every operation is about to start, nothing has been sent, the mutex is free.\<close>

definition idle :: "'k system \<Rightarrow> bool" where
  "idle s \<longleftrightarrow> list_all (\<lambda>(op, p). p = P_entry) (ops s) \<and> tlog s = [] \<and> \<not> mutex_held (device s)"

text \<open>Whether the call is a get, and the first transport call of an operation when the
  counter is \<open>c\<close>.\<close>

definition is_get :: "opcall \<Rightarrow> bool" where
  "is_get op = (case op of OpSet usage v \<Rightarrow> False | OpGet usage pv \<Rightarrow> True)"

definition first_call :: "opcall \<Rightarrow> ushort \<Rightarrow> raw_request" where
  "first_call op c =
     (case op of OpSet usage v \<Rightarrow> set_call usage c v | OpGet usage pv \<Rightarrow> get_write_call usage c)"

text \<open>
  A call is well formed for the operation that makes it: a \<^verbatim>\<open>SET_REPORT\<close> is the first
  call of that operation, with the frame built from its arguments and the counter; a
  \<^verbatim>\<open>GET_REPORT\<close> is made by a get, on report 3, with a 39-byte buffer.
\<close>

definition well_formed :: "ushort \<Rightarrow> opcall \<Rightarrow> raw_request \<Rightarrow> bool" where
  "well_formed c op call =
     (case reqtype call of
        HID_REQ_SET_REPORT \<Rightarrow> call = first_call op c
      | HID_REQ_GET_REPORT \<Rightarrow>
          is_get op \<and> reportnum call = 3 \<and> len call = 39
          \<and> rtype call = HID_FEATURE_REPORT \<and> length (buf call) = 39)"

text \<open>The buffer a call holds at each statement.\<close>

definition pc_ok :: "ushort \<Rightarrow> opcall \<Rightarrow> pc \<Rightarrow> bool" where
  "pc_ok c op p =
     (case p of
        P_lock report \<Rightarrow> report = replicate 39 0
      | P_build report \<Rightarrow> report = replicate 39 0
      | P_request report \<Rightarrow> report = buf (first_call op c)
      | P_wait ret report \<Rightarrow> length report = 39
      | P_request2 report \<Rightarrow> length report = 39 \<and> is_get op
      | _ \<Rightarrow> True)"

text \<open>A call running alone: \<open>n\<close> statements, or fewer if it stops.\<close>

fun op_run :: "nat \<Rightarrow> 'k kernel \<Rightarrow> opcall \<Rightarrow> 'k hid_device \<Rightarrow> pc \<Rightarrow> 'k hid_device \<times> pc" where
  "op_run 0 K op hdev p = (hdev, p)"
| "op_run (Suc n) K op hdev p =
     (case op_step K op hdev p of
        None \<Rightarrow> (hdev, p)
      | Some (hdev', p') \<Rightarrow> op_run n K op hdev' p')"

definition op_result :: "'k hid_device \<times> pc \<Rightarrow> (s32 \<times> s32 \<times> 'k hid_device) option" where
  "op_result x = (case snd x of P_done r v \<Rightarrow> Some (r, v, fst x) | _ \<Rightarrow> None)"

text \<open>
  Where a call is, as far as exclusion is concerned: before the mutex, holding it with
  nothing sent yet, holding it with something sent, after it.
\<close>

datatype mode = Pre | CsPre | CsSent | Post

fun mode_of :: "pc \<Rightarrow> mode" where
  "mode_of P_entry = Pre"
| "mode_of P_alloc = Pre"
| "mode_of (P_lock _) = Pre"
| "mode_of (P_build _) = CsPre"
| "mode_of (P_request _) = CsPre"
| "mode_of (P_wait _ _) = CsSent"
| "mode_of (P_request2 _) = CsSent"
| "mode_of (P_wait2 _ _) = CsSent"
| "mode_of (P_unlock _ _) = CsSent"
| "mode_of (P_free _ _) = Post"
| "mode_of (P_done _ _) = Post"

definition crit :: "mode \<Rightarrow> bool" where
  "crit m \<longleftrightarrow> m = CsPre \<or> m = CsSent"

text \<open>
  The invariant, on the modes and the tags of the transport log: at most one operation
  holds the mutex, the mutex is held exactly when one does, an operation that has sent
  nothing has no entry in the log, the last entry belongs to the operation that holds
  the mutex after sending, and the entries of each operation are adjacent.
\<close>

definition ainv :: "bool \<Rightarrow> mode list \<Rightarrow> nat list \<Rightarrow> bool" where
  "ainv held ms ts \<longleftrightarrow>
     (\<forall>i<length ms. \<forall>j<length ms. crit (ms ! i) \<and> crit (ms ! j) \<longrightarrow> i = j)
   \<and> (held \<longleftrightarrow> (\<exists>i<length ms. crit (ms ! i)))
   \<and> (\<forall>i<length ms. ms ! i = Pre \<or> ms ! i = CsPre \<longrightarrow> i \<notin> set ts)
   \<and> (\<forall>i<length ms. ms ! i = CsSent \<longrightarrow> ts \<noteq> [] \<and> last ts = i)
   \<and> distinct (remdups_adj ts)"

text \<open>The invariant on a system, and its companion on the buffers: the counter is \<open>c\<close>,
  every operation holds the buffer its statement expects, every logged call is well
  formed for the operation that made it.\<close>

definition modes :: "'k system \<Rightarrow> mode list" where
  "modes s = map (\<lambda>x. mode_of (snd x)) (ops s)"

definition excl_inv :: "'k system \<Rightarrow> bool" where
  "excl_inv s \<longleftrightarrow> ainv (mutex_held (device s)) (modes s) (map fst (tlog s))"

definition frame_inv :: "ushort \<Rightarrow> 'k system \<Rightarrow> bool" where
  "frame_inv c s \<longleftrightarrow>
     data_counter (device s) = c
   \<and> (\<forall>i<length (ops s). pc_ok c (fst (ops s ! i)) (snd (ops s ! i)))
   \<and> (\<forall>(i, call, r) \<in> set (tlog s). i < length (ops s) \<and> well_formed c (fst (ops s ! i)) call)"

section \<open>A simulated monitor\<close>

text \<open>
  A concrete environment to run the model on: the allocator answers \<open>alloc_ok\<close>, a
  \<^verbatim>\<open>SET_REPORT\<close> returns \<open>ret_set\<close> and, on report 2, stores the frame in the monitor, a
  \<^verbatim>\<open>GET_REPORT\<close> returns \<open>ret_get\<close> and the stored frame. The state is the stored frame.
\<close>

definition stub_kernel :: "bool \<Rightarrow> s32 \<Rightarrow> s32 \<Rightarrow> (u8 list) kernel" where
  "stub_kernel alloc_ok ret_set ret_get =
     \<lparr>kzalloc = (\<lambda>k n. (alloc_ok, k)),
      hid_hw_raw_request = (\<lambda>k c.
         if reqtype c = HID_REQ_SET_REPORT
         then ((ret_set, []), if reportnum c = 2 \<and> \<not> ret_set <s 0 then buf c else k)
         else ((ret_get, if ret_get <s 0 then [] else k), k)),
      devm_kzalloc = (\<lambda>k. (True, k)),
      hid_parse = (\<lambda>k. (0, k)),
      hid_hw_start = (\<lambda>k. (0, k)),
      hid_hw_open = (\<lambda>k. (0, k)),
      sysfs_create_group = (\<lambda>k. (0, k)),
      hid_hw_close = (\<lambda>k. k),
      hid_hw_stop = (\<lambda>k. k)\<rparr>"

definition stub_h :: eizo_h where
  "stub_h = \<lparr>EIZO_USAGE_BRIGHTNESS = 0x10, EIZO_USAGE_POWER = 0x20,
             EIZO_USAGE_GAMMA = 0x30, EIZO_USAGE_PROFILE = 0x40\<rparr>"

definition detached :: "(u8 list) hid_device" where
  "detached = \<lparr>drvdata = None, kern = replicate 39 0, trace = []\<rparr>"

definition attached :: "(u8 list) hid_device" where
  "attached = \<lparr>drvdata = Some \<lparr>lock = False, counter = 1\<rparr>, kern = replicate 39 0, trace = []\<rparr>"

text \<open>The simulated monitor after \<^verbatim>\<open>set(0x10, 150)\<close> on the attached device.\<close>

definition after_set_150 :: "(u8 list) hid_device" where
  "after_set_150 = \<lparr>drvdata = Some \<lparr>lock = False, counter = 1\<rparr>, kern = set_frame 0x10 1 150,
      trace = [Kzalloc 39 True, MutexLock, RawRequest (set_call 0x10 1 150) 39, HwWait, 
         MutexUnlock, Kfree]\<rparr>"

text \<open>The attached device after a set whose transport call failed, and after a get whose
  read failed.\<close>

definition after_failed_set :: "(u8 list) hid_device" where
  "after_failed_set = \<lparr>drvdata = Some \<lparr>lock = False, counter = 1\<rparr>, kern = replicate 39 0,
      trace = [Kzalloc 39 True, MutexLock, RawRequest (set_call 0x10 1 150) (- 5), HwWait,
         MutexUnlock, Kfree]\<rparr>"

definition after_failed_get :: "(u8 list) hid_device" where
  "after_failed_get = \<lparr>drvdata = Some \<lparr>lock = False, counter = 1\<rparr>, kern = replicate 39 0,
      trace = [Kzalloc 39 True, MutexLock, RawRequest (get_write_call 0x10 1) 39, HwWait,
         RawRequest (get_read_call (get_frame 0x10 1)) (- 5), HwWait, MutexUnlock, Kfree]\<rparr>"

text \<open>The monitor after a set of 150 followed by a get, and the attached device after a
  call whose allocation failed.\<close>

definition after_get_150 :: "(u8 list) hid_device" where
  "after_get_150 = \<lparr>drvdata = Some \<lparr>lock = False, counter = 1\<rparr>, kern = set_frame 0x10 1 150,
      trace = [Kzalloc 39 True, MutexLock, RawRequest (set_call 0x10 1 150) 39, HwWait,
         MutexUnlock, Kfree,
         Kzalloc 39 True, MutexLock, RawRequest (get_write_call 0x10 1) 39, HwWait,
         RawRequest (get_read_call (get_frame 0x10 1)) 39, HwWait, MutexUnlock, Kfree]\<rparr>"

definition after_nomem :: "(u8 list) hid_device" where
  "after_nomem = \<lparr>drvdata = Some \<lparr>lock = False, counter = 1\<rparr>, kern = replicate 39 0,
      trace = [Kzalloc 39 False]\<rparr>"

text \<open>A set and a get on the simulated monitor, and a schedule in which the get takes the
  mutex first and the set tries to take it twice while the get holds it.\<close>

definition two_ops :: "(u8 list) system" where
  "two_ops = \<lparr>device = attached,
               ops = [(OpSet 0x10 150, P_entry), (OpGet 0x10 0, P_entry)],
               tlog = []\<rparr>"

definition get_first :: "nat list" where
  "get_first = [1, 1, 1, 1, 1, 0, 0, 0, 1, 0, 1, 1, 1, 1, 0, 0, 0, 0, 0, 0]"

section \<open>Bytes of a word\<close>

lemma ff_mask: "(0xff :: s32) = mask 8"
  by (simp add: mask_eq_exp_minus_1)

lemma bit_byte_of: "n \<le> 24 \<Longrightarrow> bit (byte_of x n) k \<longleftrightarrow> k < 8 \<and> bit x (k + n)"
  unfolding byte_of_def ff_mask
  by (auto simp add: bit_simps bit_signed_drop_bit_iff add.commute)

lemma le32_of_bytes:
  "ucast (byte_of x 0) OR push_bit 8 (ucast (byte_of x 8))
     OR push_bit 16 (ucast (byte_of x 16)) OR push_bit 24 (ucast (byte_of x 24)) = x"
proof (rule bit_word_eqI)
  fix n assume "n < LENGTH(32)"
  then consider "n < 8" | "8 \<le> n" "n < 16" | "16 \<le> n" "n < 24" | "24 \<le> n" "n < 32"
    by fastforce
  then show "bit (ucast (byte_of x 0) OR push_bit 8 (ucast (byte_of x 8))
       OR push_bit 16 (ucast (byte_of x 16)) OR push_bit 24 (ucast (byte_of x 24)) :: s32) n
       = bit x n"
    by cases (auto simp add: bit_simps bit_byte_of)
qed


lemma le16_of_bytes:
  "ucast (byte_of (ucast (c :: ushort)) 0) OR push_bit 8 (ucast (byte_of (ucast c) 8)) = c"
proof (rule bit_word_eqI)
  fix n assume "n < LENGTH(16)"
  then consider "n < 8" | "8 \<le> n" "n < 16"
    by fastforce
  then show "bit (ucast (byte_of (ucast c) 0) OR push_bit 8 (ucast (byte_of (ucast c) 8)) :: ushort) n
       = bit c n"
    by cases (auto simp add: bit_simps bit_byte_of)
qed

lemma byte_of_0 [simp]: "byte_of 0 n = 0"
  by (simp add: byte_of_def)

section \<open>The frames, byte by byte\<close>

lemma set_frame_bytes:
  "set_frame usage c v =
     [0, byte_of usage 0, byte_of usage 8, byte_of usage 16, byte_of usage 24,
      byte_of (ucast c) 0, byte_of (ucast c) 8,
      byte_of v 0, byte_of v 8, byte_of v 16, byte_of v 24] @ replicate 28 0"
  by (simp add: set_frame_def put_value_def put_counter_def put_usage_def eval_nat_numeral)

lemma get_frame_bytes:
  "get_frame usage c =
     [0, byte_of usage 0, byte_of usage 8, byte_of usage 16, byte_of usage 24,
      byte_of (ucast c) 0, byte_of (ucast c) 8, 0, 0, 0, 0] @ replicate 28 0"
  by (simp add: get_frame_def put_counter_def put_usage_def eval_nat_numeral)

lemma get_frame_is_set_frame: "get_frame usage c = set_frame usage c 0"
  by (simp add: set_frame_bytes get_frame_bytes)

lemma set_frame_nth:
  "set_frame usage c v ! 0 = 0"
  "set_frame usage c v ! 1 = byte_of usage 0"
  "set_frame usage c v ! 2 = byte_of usage 8"
  "set_frame usage c v ! 3 = byte_of usage 16"
  "set_frame usage c v ! 4 = byte_of usage 24"
  "set_frame usage c v ! 5 = byte_of (ucast c) 0"
  "set_frame usage c v ! 6 = byte_of (ucast c) 8"
  "set_frame usage c v ! 7 = byte_of v 0"
  "set_frame usage c v ! 8 = byte_of v 8"
  "set_frame usage c v ! 9 = byte_of v 16"
  "set_frame usage c v ! 10 = byte_of v 24"
  by (simp_all add: set_frame_bytes eval_nat_numeral)

lemma le32_at_1:
  "le32_at r 1 = ucast (r ! 1) OR push_bit 8 (ucast (r ! 2))
     OR push_bit 16 (ucast (r ! 3)) OR push_bit 24 (ucast (r ! 4))"
  unfolding le32_at_def
  by (simp only: one_add_one numeral_plus_one semiring_norm one_plus_numeral nat_1_add_1)

lemma le32_at_7:
  "le32_at r 7 = ucast (r ! 7) OR push_bit 8 (ucast (r ! 8))
     OR push_bit 16 (ucast (r ! 9)) OR push_bit 24 (ucast (r ! 10))"
  unfolding le32_at_def
  by (simp only: numeral_plus_one numeral_plus_numeral semiring_norm)

lemma le16_at_5: "le16_at r 5 = ucast (r ! 5) OR push_bit 8 (ucast (r ! 6))"
  unfolding le16_at_def
  by (simp only: numeral_plus_one semiring_norm)

lemma set_frame_usage: "le32_at (set_frame usage c v) 1 = usage"
  by (simp only: le32_at_1 set_frame_nth le32_of_bytes)

lemma set_frame_value: "le32_at (set_frame usage c v) 7 = v"
  by (simp only: le32_at_7 set_frame_nth le32_of_bytes)

lemma set_frame_counter: "le16_at (set_frame usage c v) 5 = c"
  by (simp only: le16_at_5 set_frame_nth le16_of_bytes)

lemma set_frame_length: "length (set_frame usage c v) = 39"
  by (simp add: set_frame_def put_value_def put_counter_def put_usage_def)

lemma set_frame_tail: "drop 11 (set_frame usage c v) = replicate 28 0"
  by (simp add: set_frame_bytes)

lemma set_frame_150: "take 6 (drop 5 (set_frame usage 1 150)) = [1, 0, 0x96, 0, 0, 0]"
  by (simp add: set_frame_bytes byte_of_def)

lemma buf_write_nil [simp]: "buf_write b n [] = b"
  by (simp add: buf_write_def)

lemma length_buf_write [simp]: "length (buf_write b n bytes) = length b"
  by (simp add: buf_write_def Let_def)

section \<open>Error codes\<close>

lemma errno_nonzero [simp]:
  "ENODATA \<noteq> 0" "ENOMEM \<noteq> 0" "ECOMM \<noteq> 0" "EINVAL \<noteq> 0" "EPERM \<noteq> 0"
  by (simp_all add: ENODATA_def ENOMEM_def ECOMM_def EINVAL_def EPERM_def)

lemma errno_negative [simp]:
  "- ENODATA <s 0" "- ENOMEM <s 0" "- ECOMM <s 0" "- EINVAL <s 0" "- EPERM <s 0" "- ERANGE <s 0"
  by (simp_all add: ENODATA_def ENOMEM_def ECOMM_def EINVAL_def EPERM_def ERANGE_def word_sless_alt)

section \<open>What a call of the protocol engine does\<close>

text \<open>
  Each path through \<^verbatim>\<open>eizo_set_value\<close> and \<^verbatim>\<open>eizo_get_value\<close>, by the answers of the
  environment: the return value, the final state and the events logged.
\<close>

lemma eizo_set_value_no_data:
  "drvdata hdev = None \<Longrightarrow> eizo_set_value K hdev usage val = Some (- ENODATA, hdev)"
  by (simp add: eizo_set_value_def hid_get_drvdata_def)

lemma eizo_set_value_nomem:
  "drvdata hdev = Some d \<Longrightarrow> kzalloc K (kern hdev) 39 = (False, k1) \<Longrightarrow>
   eizo_set_value K hdev usage val =
     Some (- ENOMEM, hdev\<lparr>kern := k1, trace := trace hdev @ [Kzalloc 39 False]\<rparr>)"
  by (simp add: eizo_set_value_def hid_get_drvdata_def kzalloc_buf_def log_event_def)

lemma eizo_set_value_blocked:
  "drvdata hdev = Some d \<Longrightarrow> lock d \<Longrightarrow> kzalloc K (kern hdev) 39 = (True, k1) \<Longrightarrow>
   eizo_set_value K hdev usage val = None"
  by (simp add: eizo_set_value_def hid_get_drvdata_def kzalloc_buf_def log_event_def mutex_lock_def)

lemma eizo_set_value_run:
  assumes "drvdata hdev = Some d" "\<not> lock d" "kzalloc K (kern hdev) 39 = (True, k1)"
    "hid_hw_raw_request K k1 (set_call usage (counter d) val) = ((ret, bytes), k2)"
  shows "eizo_set_value K hdev usage val =
     Some (if ret <s 0 then - ECOMM else 0,
           hdev\<lparr>drvdata := Some (d\<lparr>lock := False\<rparr>), kern := k2,
                trace := trace hdev @ [Kzalloc 39 True, MutexLock,
                   RawRequest (set_call usage (counter d) val) ret, HwWait, MutexUnlock, Kfree]\<rparr>)"
  using assms
  by (simp add: eizo_set_value_def hid_get_drvdata_def kzalloc_buf_def log_event_def mutex_lock_def
      data_counter_def raw_request_def set_call_def set_frame_def hid_hw_wait_def mutex_unlock_def kfree_def)


lemma eizo_get_value_no_data:
  "drvdata hdev = None \<Longrightarrow> eizo_get_value K hdev usage pv = Some (- ENODATA, pv, hdev)"
  by (simp add: eizo_get_value_def hid_get_drvdata_def)

lemma eizo_get_value_nomem:
  "drvdata hdev = Some d \<Longrightarrow> kzalloc K (kern hdev) 39 = (False, k1) \<Longrightarrow>
   eizo_get_value K hdev usage pv =
     Some (- ENOMEM, pv, hdev\<lparr>kern := k1, trace := trace hdev @ [Kzalloc 39 False]\<rparr>)"
  by (simp add: eizo_get_value_def hid_get_drvdata_def kzalloc_buf_def log_event_def)

lemma eizo_get_value_blocked:
  "drvdata hdev = Some d \<Longrightarrow> lock d \<Longrightarrow> kzalloc K (kern hdev) 39 = (True, k1) \<Longrightarrow>
   eizo_get_value K hdev usage pv = None"
  by (simp add: eizo_get_value_def hid_get_drvdata_def kzalloc_buf_def log_event_def mutex_lock_def)

lemma eizo_get_value_write_fails:
  assumes "drvdata hdev = Some d" "\<not> lock d" "kzalloc K (kern hdev) 39 = (True, k1)"
    "hid_hw_raw_request K k1 (get_write_call usage (counter d)) = ((ret, bytes), k2)"
    "ret <s 0"
  shows "eizo_get_value K hdev usage pv =
     Some (- ECOMM, pv,
           hdev\<lparr>drvdata := Some (d\<lparr>lock := False\<rparr>), kern := k2,
                trace := trace hdev @ [Kzalloc 39 True, MutexLock,
                   RawRequest (get_write_call usage (counter d)) ret, HwWait, MutexUnlock, Kfree]\<rparr>)"
  using assms
  by (simp add: eizo_get_value_def hid_get_drvdata_def kzalloc_buf_def log_event_def mutex_lock_def
      data_counter_def raw_request_def get_write_call_def get_frame_def hid_hw_wait_def
      mutex_unlock_def kfree_def)

lemma eizo_get_value_run:
  assumes "drvdata hdev = Some d" "\<not> lock d" "kzalloc K (kern hdev) 39 = (True, k1)"
    "hid_hw_raw_request K k1 (get_write_call usage (counter d)) = ((ret, bytes), k2)"
    "\<not> ret <s 0"
    "report = buf_write (get_frame usage (counter d)) 39 bytes"
    "hid_hw_raw_request K k2 (get_read_call report) = ((ret', bytes'), k3)"
  shows "eizo_get_value K hdev usage pv =
     Some (if ret' <s 0 then - ECOMM else 0,
           if ret' <s 0 then pv else le32_at (buf_write report 39 bytes') 7,
           hdev\<lparr>drvdata := Some (d\<lparr>lock := False\<rparr>), kern := k3,
                trace := trace hdev @ [Kzalloc 39 True, MutexLock,
                   RawRequest (get_write_call usage (counter d)) ret, HwWait,
                   RawRequest (get_read_call report) ret', HwWait, MutexUnlock, Kfree]\<rparr>)"
  using assms
  by (simp add: eizo_get_value_def hid_get_drvdata_def kzalloc_buf_def log_event_def mutex_lock_def
      data_counter_def raw_request_def get_write_call_def get_read_call_def get_frame_def Let_def
      hid_hw_wait_def mutex_unlock_def kfree_def)


lemma new_events_append [simp]:
  "trace hdev' = trace hdev @ es \<Longrightarrow> new_events hdev hdev' = es"
  by (simp add: new_events_def)

lemma eizo_set_value_cases:
  obtains
    (no_data) "drvdata hdev = None"
      "eizo_set_value K hdev usage val = Some (- ENODATA, hdev)"
  | (nomem) d k1 where "drvdata hdev = Some d" "kzalloc K (kern hdev) 39 = (False, k1)"
      "eizo_set_value K hdev usage val =
         Some (- ENOMEM, hdev\<lparr>kern := k1, trace := trace hdev @ [Kzalloc 39 False]\<rparr>)"
  | (blocked) d k1 where "drvdata hdev = Some d" "lock d" "kzalloc K (kern hdev) 39 = (True, k1)"
      "eizo_set_value K hdev usage val = None"
  | (run) d k1 ret bytes k2 where "drvdata hdev = Some d" "\<not> lock d"
      "kzalloc K (kern hdev) 39 = (True, k1)"
      "hid_hw_raw_request K k1 (set_call usage (counter d) val) = ((ret, bytes), k2)"
      "eizo_set_value K hdev usage val =
         Some (if ret <s 0 then - ECOMM else 0,
               hdev\<lparr>drvdata := Some (d\<lparr>lock := False\<rparr>), kern := k2,
                    trace := trace hdev @ [Kzalloc 39 True, MutexLock,
                      RawRequest (set_call usage (counter d) val) ret, HwWait,
                      MutexUnlock, Kfree]\<rparr>)"
proof (cases "drvdata hdev")
  case None
  show ?thesis
    by (rule no_data [OF None eizo_set_value_no_data [OF None]])
next
  case (Some d)
  obtain ok k1 where k: "kzalloc K (kern hdev) 39 = (ok, k1)"
    by (cases "kzalloc K (kern hdev) 39")
  show ?thesis
  proof (cases ok)
    case False
    with k have k': "kzalloc K (kern hdev) 39 = (False, k1)" by simp
    show ?thesis
      by (rule nomem [OF Some k' eizo_set_value_nomem [OF Some k']])
  next
    case True
    with k have k': "kzalloc K (kern hdev) 39 = (True, k1)" by simp
    show ?thesis
    proof (cases "lock d")
      case True
      show ?thesis
        by (rule blocked [OF Some True k' eizo_set_value_blocked [OF Some True k']])
    next
      case False
      obtain ret bytes k2 where
        r: "hid_hw_raw_request K k1 (set_call usage (counter d) val) = ((ret, bytes), k2)"
        by (metis surj_pair)
      show ?thesis
        by (rule run [OF Some False k' r eizo_set_value_run [OF Some False k' r]])
    qed
  qed
qed


lemma eizo_get_value_cases:
  obtains
    (no_data) "drvdata hdev = None"
      "eizo_get_value K hdev usage pv = Some (- ENODATA, pv, hdev)"
  | (nomem) d k1 where "drvdata hdev = Some d" "kzalloc K (kern hdev) 39 = (False, k1)"
      "eizo_get_value K hdev usage pv =
         Some (- ENOMEM, pv, hdev\<lparr>kern := k1, trace := trace hdev @ [Kzalloc 39 False]\<rparr>)"
  | (blocked) d k1 where "drvdata hdev = Some d" "lock d" "kzalloc K (kern hdev) 39 = (True, k1)"
      "eizo_get_value K hdev usage pv = None"
  | (write_fails) d k1 ret bytes k2 where "drvdata hdev = Some d" "\<not> lock d"
      "kzalloc K (kern hdev) 39 = (True, k1)"
      "hid_hw_raw_request K k1 (get_write_call usage (counter d)) = ((ret, bytes), k2)"
      "ret <s 0"
      "eizo_get_value K hdev usage pv =
         Some (- ECOMM, pv,
               hdev\<lparr>drvdata := Some (d\<lparr>lock := False\<rparr>), kern := k2,
                    trace := trace hdev @ [Kzalloc 39 True, MutexLock,
                      RawRequest (get_write_call usage (counter d)) ret, HwWait,
                      MutexUnlock, Kfree]\<rparr>)"
  | (run) d k1 ret bytes k2 ret' bytes' k3 where "drvdata hdev = Some d" "\<not> lock d"
      "kzalloc K (kern hdev) 39 = (True, k1)"
      "hid_hw_raw_request K k1 (get_write_call usage (counter d)) = ((ret, bytes), k2)"
      "\<not> ret <s 0"
      "hid_hw_raw_request K k2
         (get_read_call (buf_write (get_frame usage (counter d)) 39 bytes)) = ((ret', bytes'), k3)"
      "eizo_get_value K hdev usage pv =
         Some (if ret' <s 0 then - ECOMM else 0,
               if ret' <s 0 then pv
               else le32_at (buf_write (buf_write (get_frame usage (counter d)) 39 bytes) 39 bytes') 7,
               hdev\<lparr>drvdata := Some (d\<lparr>lock := False\<rparr>), kern := k3,
                    trace := trace hdev @ [Kzalloc 39 True, MutexLock,
                      RawRequest (get_write_call usage (counter d)) ret, HwWait,
                      RawRequest (get_read_call (buf_write (get_frame usage (counter d)) 39 bytes)) ret',
                      HwWait, MutexUnlock, Kfree]\<rparr>)"
proof (cases "drvdata hdev")
  case None
  show ?thesis
    by (rule no_data [OF None eizo_get_value_no_data [OF None]])
next
  case (Some d)
  obtain ok k1 where k: "kzalloc K (kern hdev) 39 = (ok, k1)"
    by (cases "kzalloc K (kern hdev) 39")
  show ?thesis
  proof (cases ok)
    case False
    with k have k': "kzalloc K (kern hdev) 39 = (False, k1)" by simp
    show ?thesis
      by (rule nomem [OF Some k' eizo_get_value_nomem [OF Some k']])
  next
    case True
    with k have k': "kzalloc K (kern hdev) 39 = (True, k1)" by simp
    show ?thesis
    proof (cases "lock d")
      case True
      show ?thesis
        by (rule blocked [OF Some True k' eizo_get_value_blocked [OF Some True k']])
    next
      case False
      obtain ret bytes k2 where
        r: "hid_hw_raw_request K k1 (get_write_call usage (counter d)) = ((ret, bytes), k2)"
        by (metis surj_pair)
      show ?thesis
      proof (cases "ret <s 0")
        case True
        show ?thesis
          by (rule write_fails [OF Some False k' r True
                eizo_get_value_write_fails [OF Some False k' r True]])
      next
        case nf: False
        obtain ret' bytes' k3 where
          r': "hid_hw_raw_request K k2
                 (get_read_call (buf_write (get_frame usage (counter d)) 39 bytes))
               = ((ret', bytes'), k3)"
          by (metis surj_pair)
        show ?thesis
          by (rule run [OF Some False k' r nf r'
                eizo_get_value_run [OF Some False k' r nf refl r']])
      qed
    qed
  qed
qed

section \<open>The mutex around the exchanges\<close>

lemma set_returns_when_free:
  "drvdata hdev = None \<or> (\<exists>d. drvdata hdev = Some d \<and> \<not> lock d) \<Longrightarrow>
   eizo_set_value K hdev usage val \<noteq> None"
  by (cases rule: eizo_set_value_cases [where hdev = hdev and K = K and usage = usage and val = val])
     auto

lemma get_returns_when_free:
  "drvdata hdev = None \<or> (\<exists>d. drvdata hdev = Some d \<and> \<not> lock d) \<Longrightarrow>
   eizo_get_value K hdev usage pv \<noteq> None"
  by (cases rule: eizo_get_value_cases [where hdev = hdev and K = K and usage = usage and pv = pv])
     auto

lemma set_mutex_balanced:
  assumes "eizo_set_value K hdev usage val = Some (r, hdev')"
  shows "(\<forall>c ret. RawRequest c ret \<in> set (new_events hdev hdev') \<and> ret <s 0 \<longrightarrow>
            r = - ECOMM \<and> (\<exists>d. drvdata hdev' = Some d \<and> \<not> lock d))
       \<and> (MutexLock \<in> set (new_events hdev hdev') \<longrightarrow>
            lock_events (new_events hdev hdev') = [MutexLock, MutexUnlock]
          \<and> (\<exists>es. new_events hdev hdev' = es @ [MutexUnlock, Kfree])
          \<and> (\<exists>d. drvdata hdev' = Some d \<and> \<not> lock d))"
proof (cases rule: eizo_set_value_cases [where hdev = hdev and K = K and usage = usage and val = val])
  case no_data
  with assms show ?thesis by (simp add: new_events_def)
next
  case (nomem d k1)
  with assms show ?thesis by (auto simp add: new_events_def)
next
  case (blocked d k1)
  with assms show ?thesis by simp
next
  case (run d k1 ret bytes k2)
  with assms have ev: "new_events hdev hdev' = [Kzalloc 39 True, MutexLock,
       RawRequest (set_call usage (counter d) val) ret, HwWait, MutexUnlock, Kfree]"
    and dd: "drvdata hdev' = Some (d\<lparr>lock := False\<rparr>)"
    and r: "r = (if ret <s 0 then - ECOMM else 0)"
    by (auto simp add: new_events_def)
  show ?thesis
    unfolding ev dd r by (simp add: lock_events_def)
qed

lemma get_mutex_balanced:
  assumes "eizo_get_value K hdev usage pv = Some (r, pv', hdev')"
  shows "(\<forall>c ret. RawRequest c ret \<in> set (new_events hdev hdev') \<and> ret <s 0 \<longrightarrow>
            r = - ECOMM \<and> (\<exists>d. drvdata hdev' = Some d \<and> \<not> lock d))
       \<and> (MutexLock \<in> set (new_events hdev hdev') \<longrightarrow>
            lock_events (new_events hdev hdev') = [MutexLock, MutexUnlock]
          \<and> (\<exists>es. new_events hdev hdev' = es @ [MutexUnlock, Kfree])
          \<and> (\<exists>d. drvdata hdev' = Some d \<and> \<not> lock d))"
proof (cases rule: eizo_get_value_cases [where hdev = hdev and K = K and usage = usage and pv = pv])
  case no_data
  with assms show ?thesis by (simp add: new_events_def)
next
  case (nomem d k1)
  with assms show ?thesis by (auto simp add: new_events_def)
next
  case (blocked d k1)
  with assms show ?thesis by simp
next
  case (write_fails d k1 ret bytes k2)
  with assms have ev: "new_events hdev hdev' = [Kzalloc 39 True, MutexLock,
       RawRequest (get_write_call usage (counter d)) ret, HwWait, MutexUnlock, Kfree]"
    and dd: "drvdata hdev' = Some (d\<lparr>lock := False\<rparr>)"
    and r: "r = - ECOMM"
    by (auto simp add: new_events_def)
  show ?thesis
    unfolding ev dd r by (simp add: lock_events_def)
next
  case (run d k1 ret bytes k2 ret' bytes' k3)
  with assms have ev: "new_events hdev hdev' = [Kzalloc 39 True, MutexLock,
       RawRequest (get_write_call usage (counter d)) ret, HwWait,
       RawRequest (get_read_call (buf_write (get_frame usage (counter d)) 39 bytes)) ret',
       HwWait, MutexUnlock, Kfree]"
    and dd: "drvdata hdev' = Some (d\<lparr>lock := False\<rparr>)"
    and r: "r = (if ret' <s 0 then - ECOMM else 0)"
    by (auto simp add: new_events_def)
  show ?thesis
    unfolding ev dd r using run(5) by (auto simp add: lock_events_def)
qed

section \<open>Decimal strings\<close>

text \<open>What \<^verbatim>\<open>sprintf\<close> prints for \<^verbatim>\<open>"%d\n"\<close>, \<^verbatim>\<open>kstrtoint\<close> reads back.\<close>

lemma isdigit_char_of: "(d::nat) < 10 \<Longrightarrow> isdigit (char_of (48 + d))"
  by (simp add: isdigit_def)

lemma digit_val: "(d::nat) < 10 \<Longrightarrow> (of_char (char_of (48 + d)) :: nat) - 48 = d"
  by simp

lemma not_isdigit_newline: "\<not> isdigit (CHR 0x0A)"
  by (simp add: isdigit_def)

lemma isdigit_not_sign: "isdigit c \<Longrightarrow> c \<noteq> CHR ''-'' \<and> c \<noteq> CHR ''+''"
  by (auto simp add: isdigit_def)

lemma dec_digits_Cons: "\<exists>c cs. dec_digits n = c # cs \<and> isdigit c"
proof (induction n rule: dec_digits.induct)
  case (1 n)
  show ?case
  proof (cases "n < 10")
    case True
    then show ?thesis
      by (simp add: dec_digits.simps [of n] isdigit_char_of)
  next
    case False
    with 1 obtain c cs where "dec_digits (n div 10) = c # cs" "isdigit c"
      by blast
    with False show ?thesis
      by (simp add: dec_digits.simps [of n])
  qed
qed

lemma parse_integer_dec:
  "parse_integer (dec_digits n @ rest) acc rv =
     parse_integer rest (acc * 10 ^ length (dec_digits n) + n) (rv + length (dec_digits n))"
proof (induction n arbitrary: rest acc rv rule: dec_digits.induct)
  case (1 n)
  show ?case
  proof (cases "n < 10")
    case True
    then show ?thesis
      by (simp add: dec_digits.simps [of n] isdigit_char_of)
  next
    case False
    have m: "n mod 10 < 10" by simp
    have "parse_integer (dec_digits n @ rest) acc rv =
       parse_integer (dec_digits (n div 10) @ (char_of (48 + n mod 10) # rest)) acc rv"
      using False by (simp add: dec_digits.simps [of n])
    also have "\<dots> = parse_integer (char_of (48 + n mod 10) # rest)
        (acc * 10 ^ length (dec_digits (n div 10)) + n div 10)
        (rv + length (dec_digits (n div 10)))"
      using False by (simp add: "1.IH")
    also have "\<dots> = parse_integer rest
        ((acc * 10 ^ length (dec_digits (n div 10)) + n div 10) * 10 + n mod 10)
        (Suc (rv + length (dec_digits (n div 10))))"
      using isdigit_char_of [OF m] digit_val [OF m] by (simp del: of_char_of)
    also have "\<dots> = parse_integer rest (acc * 10 ^ length (dec_digits n) + n)
        (rv + length (dec_digits n))"
      using False by (simp add: dec_digits.simps [of n] algebra_simps)
    finally show ?thesis .
  qed
qed

lemma kstrtoull_digits_dec:
  "n < 2 ^ 64 \<Longrightarrow> kstrtoull_digits (dec_digits n @ [CHR 0x0A]) = Inr n"
proof -
  assume n: "n < 2 ^ 64"
  obtain c cs where "dec_digits n = c # cs"
    using dec_digits_Cons by blast
  then have l: "0 < length (dec_digits n)" by simp
  show ?thesis
    using n l
    by (simp add: kstrtoull_digits_def parse_integer_dec not_isdigit_newline)
qed

lemma kstrtoull_dec:
  "n < 2 ^ 64 \<Longrightarrow> kstrtoull (dec_digits n @ [CHR 0x0A]) = Inr n"
proof -
  assume n: "n < 2 ^ 64"
  obtain c cs where c: "dec_digits n = c # cs" "isdigit c"
    using dec_digits_Cons by blast
  then have "c \<noteq> CHR ''+''" using isdigit_not_sign by blast
  then have "kstrtoull (dec_digits n @ [CHR 0x0A]) = kstrtoull_digits (dec_digits n @ [CHR 0x0A])"
    using c by (simp add: kstrtoull_def)
  with n show ?thesis by (simp add: kstrtoull_digits_dec)
qed

lemma kstrtoint_sprintf: "kstrtoint (sprintf_d_nl v) pv = (0, v)"
proof (cases "sint v < 0")
  case True
  let ?m = "nat (- sint v)"
  have b: "- sint v \<le> 2 ^ 31"
    using sint_ge [of v] by simp
  then have m: "?m \<le> 2 ^ 31" by simp
  then have m64: "?m < 2 ^ 64" by simp
  have m63: "\<not> 2 ^ 63 < ?m" using m by simp
  have s: "sprintf_d_nl v = CHR ''-'' # dec_digits ?m @ [CHR 0x0A]"
    using True by (simp add: sprintf_d_nl_def)
  have "kstrtoll (sprintf_d_nl v) = Inr (- int ?m)"
    unfolding s using m63 by (simp add: kstrtoll_def kstrtoull_digits_dec [OF m64])
  moreover have "- int ?m = sint v" using True by simp
  ultimately have "kstrtoll (sprintf_d_nl v) = Inr (sint v)" by simp
  then show ?thesis
    using sint_ge [of v] sint_lt [of v] by (simp add: kstrtoint_def)
next
  case False
  let ?m = "nat (sint v)"
  have "sint v < 2 ^ 31" using sint_lt [of v] by simp
  with False have m: "?m < 2 ^ 31" by simp
  then have m64: "?m < 2 ^ 64" by simp
  have m63: "\<not> 2 ^ 63 \<le> ?m" using m by simp
  have s: "sprintf_d_nl v = dec_digits ?m @ [CHR 0x0A]"
    using False by (simp add: sprintf_d_nl_def)
  obtain c cs where c: "dec_digits ?m = c # cs" "isdigit c"
    using dec_digits_Cons by blast
  then have ns: "c \<noteq> CHR ''-''" using isdigit_not_sign by blast
  have "kstrtoll (dec_digits ?m @ [CHR 0x0A]) =
      (case kstrtoull (dec_digits ?m @ [CHR 0x0A]) of Inl e \<Rightarrow> Inl e
       | Inr w \<Rightarrow> if 2 ^ 63 \<le> w then Inl (- ERANGE) else Inr (int w))"
    using c ns by (simp add: kstrtoll_def)
  then have "kstrtoll (sprintf_d_nl v) = Inr (int ?m)"
    unfolding s using m63 by (simp add: kstrtoull_dec [OF m64])
  moreover have "int ?m = sint v" using False by simp
  ultimately have "kstrtoll (sprintf_d_nl v) = Inr (sint v)" by simp
  then show ?thesis
    using sint_ge [of v] sint_lt [of v] by (simp add: kstrtoint_def)
qed

lemma length_dec_digits: "n < 10 ^ k \<Longrightarrow> 0 < k \<Longrightarrow> length (dec_digits n) \<le> k"
proof (induction n arbitrary: k rule: dec_digits.induct)
  case (1 n)
  show ?case
  proof (cases "n < 10")
    case True
    with 1(3) show ?thesis by (simp add: dec_digits.simps [of n])
  next
    case False
    from 1(3) obtain j where k: "k = Suc j" by (cases k) auto
    have j: "0 < j"
    proof (rule ccontr)
      assume "\<not> 0 < j" with k 1(2) False show False by simp
    qed
    from 1(2) k have "n div 10 < 10 ^ j"
      by (simp add: less_mult_imp_div_less mult.commute)
    from 1(1) [OF False this j] False k show ?thesis
      by (simp add: dec_digits.simps [of n])
  qed
qed

lemma length_sprintf: "length (sprintf_d_nl v) \<le> 12"
proof -
  have a: "nat (- sint v) < 10 ^ 10" using sint_ge [of v] by simp
  have b: "nat (sint v) < 10 ^ 10" using sint_lt [of v] by simp
  show ?thesis
    using length_dec_digits [OF a] length_dec_digits [OF b]
    by (simp add: sprintf_d_nl_def)
qed

lemma sprintf_return: "(scast (word_of_nat (length (sprintf_d_nl v)) :: s32) :: ssize_t)
    = word_of_nat (length (sprintf_d_nl v))"
proof -
  have "int (length (sprintf_d_nl v)) < 2 ^ 31"
    using length_sprintf [of v] by simp
  then have "signed_take_bit 31 (int (length (sprintf_d_nl v))) = int (length (sprintf_d_nl v))"
    by (simp add: signed_take_bit_int_eq_self)
  then show ?thesis
    by (simp add: signed_of_nat)
qed
section \<open>Running the simulated monitor\<close>

lemma stub_simps [simp]:
  "kzalloc (stub_kernel a rs rg) k n = (a, k)"
  "hid_hw_raw_request (stub_kernel a rs rg) k c =
     (if reqtype c = HID_REQ_SET_REPORT
         then ((rs, []), if reportnum c = 2 \<and> \<not> rs <s 0 then buf c else k)
         else ((rg, if rg <s 0 then [] else k), k))"
  by (simp_all add: stub_kernel_def)

lemma w39 [simp]: "\<not> (39 :: s32) <s 0"
  by (simp add: word_sless_alt)

lemma run_set_150:
  "eizo_set_value (stub_kernel True 39 39) attached 0x10 150 = Some (0, after_set_150)"
  by (simp add: eizo_set_value_run [where d = "\<lparr>lock = False, counter = 1\<rparr>" and ?k1.0 = "replicate 39 0"
         and ret = 39 and bytes = "[]" and ?k2.0 = "set_frame 0x10 1 150"]
       attached_def after_set_150_def set_call_def)

lemma neg5 [simp]: "(- 5 :: s32) <s 0"
  by (simp add: word_sless_alt)

lemma run_failed_set:
  "eizo_set_value (stub_kernel True (- 5) 39) attached 0x10 150 = Some (- ECOMM, after_failed_set)"
  by (simp add: eizo_set_value_run [where d = "\<lparr>lock = False, counter = 1\<rparr>"
         and ?k1.0 = "replicate 39 0" and ret = "- 5" and bytes = "[]" and ?k2.0 = "replicate 39 0"]
       attached_def after_failed_set_def set_call_def)

lemma run_failed_get:
  "eizo_get_value (stub_kernel True 39 (- 5)) attached 0x10 7 = Some (- ECOMM, 7, after_failed_get)"
  by (simp add: eizo_get_value_run [where d = "\<lparr>lock = False, counter = 1\<rparr>"
         and ?k1.0 = "replicate 39 0" and ret = 39 and bytes = "[]" and ?k2.0 = "replicate 39 0"
         and ret' = "- 5" and bytes' = "[]" and ?k3.0 = "replicate 39 0"]
       attached_def after_failed_get_def get_write_call_def get_read_call_def)

section \<open>Return values, and the attribute layer on top of them\<close>

lemma set_return_values:
  "eizo_set_value K hdev usage val = Some (r, hdev') \<Longrightarrow>
   r = 0 \<or> r = - ENODATA \<or> r = - ENOMEM \<or> r = - ECOMM"
  by (cases rule: eizo_set_value_cases [where hdev = hdev and K = K and usage = usage and val = val])
     (auto split: if_splits)

lemma get_return_values:
  "eizo_get_value K hdev usage pv = Some (r, pv', hdev') \<Longrightarrow>
   (r = 0 \<or> r = - ENODATA \<or> r = - ENOMEM \<or> r = - ECOMM) \<and> (r \<noteq> 0 \<longrightarrow> pv' = pv)"
  by (cases rule: eizo_get_value_cases [where hdev = hdev and K = K and usage = usage and pv = pv])
     (auto split: if_splits)

lemma set_negative_iff:
  "eizo_set_value K hdev usage val = Some (r, hdev') \<Longrightarrow> r <s 0 \<longleftrightarrow> r \<noteq> 0"
  using set_return_values [of K hdev usage val r hdev'] by auto

lemma get_negative_iff:
  "eizo_get_value K hdev usage pv = Some (r, pv', hdev') \<Longrightarrow> r <s 0 \<longleftrightarrow> r \<noteq> 0"
  using get_return_values [of K hdev usage pv r pv' hdev'] by auto

lemma attr_store_parse_fails:
  "fst (kstrtoint buffer v0) <s 0 \<Longrightarrow>
   eizo_attr_store K H hdev attr_name buffer count v0 = Some (scast (- EINVAL), hdev)"
  by (simp add: eizo_attr_store_def case_prod_beta)

lemma attr_store_set:
  assumes "\<not> fst (kstrtoint buffer v0) <s 0" "\<not> to_usage H attr_name <s 0"
    "eizo_set_value K hdev (to_usage H attr_name) (snd (kstrtoint buffer v0)) = Some (r, hdev')"
  shows "eizo_attr_store K H hdev attr_name buffer count v0 =
     Some (if r = 0 then count else scast (- EPERM), hdev')"
  using assms set_negative_iff [OF assms(3)]
  by (simp add: eizo_attr_store_def case_prod_beta Let_def)

lemma attr_show_get:
  assumes "\<not> to_usage H attr_name <s 0"
    "eizo_get_value K hdev (to_usage H attr_name) v1 = Some (r, v, hdev')"
  shows "eizo_attr_show K H hdev attr_name page v1 =
     (if r = 0 then Some (word_of_nat (length (sprintf_d_nl v)), sprintf_d_nl v, hdev')
      else Some (scast (- ENODATA), page, hdev'))"
  using assms get_negative_iff [OF assms(2)]
  by (simp add: eizo_attr_show_def Let_def sprintf_return)

lemma last_sprintf: "last (sprintf_d_nl v) = CHR 0x0A"
  by (simp add: sprintf_d_nl_def)

section \<open>More runs of the simulated monitor\<close>

lemma buf_write_all: "length bytes = length b \<Longrightarrow> length b \<le> n \<Longrightarrow> buf_write b n bytes = bytes"
  by (simp add: buf_write_def)

lemma get_frame_length: "length (get_frame usage c) = 39"
  by (simp add: get_frame_is_set_frame set_frame_length)

lemma run_get_150:
  "eizo_get_value (stub_kernel True 39 39) after_set_150 0x10 pv = Some (0, 150, after_get_150)"
proof -
  have b: "buf_write (get_frame 0x10 1) 39 (set_frame 0x10 1 150) = set_frame 0x10 1 150"
    by (rule buf_write_all) (simp_all add: get_frame_length set_frame_length)
  show ?thesis
    by (simp add: eizo_get_value_run [where d = "\<lparr>lock = False, counter = 1\<rparr>"
         and ?k1.0 = "set_frame 0x10 1 150" and ret = 39 and bytes = "[]"
         and ?k2.0 = "set_frame 0x10 1 150" and ret' = 39 and bytes' = "set_frame 0x10 1 150"
         and ?k3.0 = "set_frame 0x10 1 150"]
       after_set_150_def after_get_150_def get_write_call_def get_read_call_def b set_frame_value)
qed

lemma run_nomem_set:
  "eizo_set_value (stub_kernel False 39 39) attached 0x10 150 = Some (- ENOMEM, after_nomem)"
  by (simp add: eizo_set_value_nomem [where d = "\<lparr>lock = False, counter = 1\<rparr>"
         and ?k1.0 = "replicate 39 0"] attached_def after_nomem_def)

lemma stub_brightness: "to_usage stub_h ''brightness'' = 0x10"
  by (simp add: to_usage_def stub_h_def)

lemma not_neg_16 [simp]: "\<not> (0x10 :: s32) <s 0"
  by (simp add: word_sless_alt)

lemma kstrtoint_abc: "kstrtoint ''abc'' 0 = (- EINVAL, 0)"
  by (simp add: kstrtoint_def kstrtoll_def kstrtoull_def kstrtoull_digits_def isdigit_def)

lemma kstrtoint_150: "kstrtoint (''150'' @ [CHR 0x0A]) 0 = (0, 150)"
  by (simp add: kstrtoint_def kstrtoll_def kstrtoull_def kstrtoull_digits_def isdigit_def)

lemma sprintf_150: "sprintf_d_nl 150 = ''150'' @ [CHR 0x0A]"
  by (simp add: sprintf_d_nl_def dec_digits.simps [of 150] dec_digits.simps [of 15]
      dec_digits.simps [of "Suc 0"] char_of_def bit_Suc_0_iff)

section \<open>The counter over a run of calls\<close>

lemma transport_calls_append:
  "transport_calls (es @ fs) = transport_calls es @ transport_calls fs"
  by (induction es rule: transport_calls.induct) simp_all

lemma counter_frames_Nil [simp]: "counter_frames c []"
  by (simp add: counter_frames_def)

lemma counter_frames_append:
  "counter_frames c es \<Longrightarrow> counter_frames c fs \<Longrightarrow> counter_frames c (es @ fs)"
  by (auto simp add: counter_frames_def transport_calls_append)

lemma get_frame_counter: "le16_at (get_frame usage c) 5 = c"
  by (simp add: get_frame_is_set_frame set_frame_counter)

lemma set_value_idle:
  assumes "session_idle hdev c"
  shows "\<exists>r hdev' es. eizo_set_value K hdev usage val = Some (r, hdev')
     \<and> session_idle hdev' c \<and> trace hdev' = trace hdev @ es \<and> counter_frames c es"
proof -
  from assms obtain d where d: "drvdata hdev = Some d" "\<not> lock d" "counter d = c"
    by (auto simp add: session_idle_def)
  show ?thesis
  proof (cases rule: eizo_set_value_cases [where hdev = hdev and K = K and usage = usage and val = val])
    case no_data
    with d show ?thesis by simp
  next
    case (nomem d' k1)
    with d show ?thesis
      by (simp add: session_idle_def counter_frames_def)
  next
    case (blocked d' k1)
    with d show ?thesis by simp
  next
    case (run d' k1 ret bytes k2)
    with d show ?thesis
      by (simp add: session_idle_def counter_frames_def set_call_def set_frame_counter)
  qed
qed

lemma get_value_idle:
  assumes "session_idle hdev c"
  shows "\<exists>r pv' hdev' es. eizo_get_value K hdev usage pv = Some (r, pv', hdev')
     \<and> session_idle hdev' c \<and> trace hdev' = trace hdev @ es \<and> counter_frames c es"
proof -
  from assms obtain d where d: "drvdata hdev = Some d" "\<not> lock d" "counter d = c"
    by (auto simp add: session_idle_def)
  show ?thesis
  proof (cases rule: eizo_get_value_cases [where hdev = hdev and K = K and usage = usage and pv = pv])
    case no_data
    with d show ?thesis by simp
  next
    case (nomem d' k1)
    with d show ?thesis
      by (simp add: session_idle_def counter_frames_def)
  next
    case (blocked d' k1)
    with d show ?thesis by simp
  next
    case (write_fails d' k1 ret bytes k2)
    with d show ?thesis
      by (simp add: session_idle_def counter_frames_def get_write_call_def get_frame_counter)
  next
    case (run d' k1 ret bytes k2 ret' bytes' k3)
    with d show ?thesis
      by (simp add: session_idle_def counter_frames_def get_write_call_def get_read_call_def
          get_frame_counter)
  qed
qed

lemma attr_store_idle:
  assumes "session_idle hdev c"
  shows "\<exists>r hdev' es. eizo_attr_store K H hdev name buffer count v0 = Some (r, hdev')
     \<and> session_idle hdev' c \<and> trace hdev' = trace hdev @ es \<and> counter_frames c es"
proof -
  obtain r hdev' es where s:
    "eizo_set_value K hdev (to_usage H name) (snd (kstrtoint buffer v0)) = Some (r, hdev')"
    "session_idle hdev' c" "trace hdev' = trace hdev @ es" "counter_frames c es"
    using set_value_idle [OF assms] by blast
  show ?thesis
  proof (cases "fst (kstrtoint buffer v0) <s 0 \<or> to_usage H name <s 0")
    case True
    then have "eizo_attr_store K H hdev name buffer count v0 = Some (scast (- EINVAL), hdev)"
      by (auto simp add: eizo_attr_store_def case_prod_beta)
    with assms show ?thesis by simp
  next
    case False
    with s show ?thesis
      by (simp add: attr_store_set)
  qed
qed

lemma attr_show_idle:
  assumes "session_idle hdev c"
  shows "\<exists>r out hdev' es. eizo_attr_show K H hdev name page v1 = Some (r, out, hdev')
     \<and> session_idle hdev' c \<and> trace hdev' = trace hdev @ es \<and> counter_frames c es"
proof -
  obtain r pv' hdev' es where s:
    "eizo_get_value K hdev (to_usage H name) v1 = Some (r, pv', hdev')"
    "session_idle hdev' c" "trace hdev' = trace hdev @ es" "counter_frames c es"
    using get_value_idle [OF assms] by blast
  show ?thesis
  proof (cases "to_usage H name <s 0")
    case True
    then have "eizo_attr_show K H hdev name page v1 = Some (scast (- EINVAL), page, hdev)"
      by (simp add: eizo_attr_show_def)
    with assms show ?thesis by simp
  next
    case False
    with s show ?thesis
      by (simp add: attr_show_get)
  qed
qed

lemma run_call_idle:
  assumes "session_idle hdev c"
  shows "\<exists>hdev' es. run_call K H hdev cl = Some hdev'
     \<and> session_idle hdev' c \<and> trace hdev' = trace hdev @ es \<and> counter_frames c es"
proof (cases cl)
  case (SetValue u v)
  with set_value_idle [OF assms, of K u v] show ?thesis
    by (auto simp add: run_call_def)
next
  case (GetValue u pv)
  with get_value_idle [OF assms, of K u pv] show ?thesis
    by (auto simp add: run_call_def)
next
  case (AttrStore n b ct v0)
  with attr_store_idle [OF assms, of K H n b ct v0] show ?thesis
    by (auto simp add: run_call_def)
next
  case (AttrShow n pg v1)
  with attr_show_idle [OF assms, of K H n pg v1] show ?thesis
    by (auto simp add: run_call_def)
qed

lemma run_calls_idle:
  "session_idle hdev c \<Longrightarrow>
   \<exists>hdev' es. run_calls K H hdev cs = Some hdev'
     \<and> session_idle hdev' c \<and> trace hdev' = trace hdev @ es \<and> counter_frames c es"
proof (induction cs arbitrary: hdev)
  case Nil
  then show ?case by simp
next
  case (Cons cl cs)
  from run_call_idle [OF Cons.prems, of K H cl] obtain h1 es1 where
    1: "run_call K H hdev cl = Some h1" "session_idle h1 c" "trace h1 = trace hdev @ es1"
      "counter_frames c es1"
    by blast
  from Cons.IH [OF 1(2)] obtain h2 es2 where
    2: "run_calls K H h1 cs = Some h2" "session_idle h2 c" "trace h2 = trace h1 @ es2"
      "counter_frames c es2"
    by blast
  from 1 2 have "run_calls K H hdev (cl # cs) = Some h2" "trace h2 = trace hdev @ (es1 @ es2)"
    by simp_all
  with 2(2) counter_frames_append [OF 1(4) 2(4)] show ?case by blast
qed

lemma probe_idle:
  "eizo_hid_driver_probe K hdev0 = (0, hdev) \<Longrightarrow> session_idle hdev 1"
  by (auto simp add: eizo_hid_driver_probe_def Let_def case_prod_beta eizo_data_init_def
      session_idle_def split: if_splits)


lemma set_value_counter:
  "eizo_set_value K s usage val = Some (r, s') \<Longrightarrow> data_counter s' = data_counter s"
  by (cases rule: eizo_set_value_cases [where hdev = s and K = K and usage = usage and val = val])
     (auto simp add: data_counter_def)

lemma get_value_counter:
  "eizo_get_value K s usage pv = Some (r, pv', s') \<Longrightarrow> data_counter s' = data_counter s"
  by (cases rule: eizo_get_value_cases [where hdev = s and K = K and usage = usage and pv = pv])
     (auto simp add: data_counter_def)

lemma probe_stub:
  "eizo_hid_driver_probe (stub_kernel True 39 39) detached = (0, attached)"
  by (simp add: eizo_hid_driver_probe_def stub_kernel_def detached_def attached_def
      eizo_data_init_def)

lemma run_calls_stub:
  "run_calls (stub_kernel True 39 39) stub_h attached [SetValue 0x10 150, GetValue 0x10 0]
     = Some after_get_150"
  by (simp add: run_call_def run_set_150 run_get_150)

section \<open>Interleaved calls: the invariants\<close>

lemma in_cs_mode: "in_cs p \<longleftrightarrow> crit (mode_of p)"
  by (cases p) (simp_all add: in_cs_def crit_def)

lemma remdups_adj_snoc_same:
  "ts \<noteq> [] \<Longrightarrow> last ts = i \<Longrightarrow> remdups_adj (ts @ [i]) = remdups_adj ts"
proof -
  assume "ts \<noteq> []" "last ts = i"
  then obtain ys where "ts = ys @ [i]"
    by (metis append_butlast_last_id)
  then show ?thesis
    by (simp add: remdups_adj_append_two)
qed

lemma remdups_adj_snoc_new:
  "i \<notin> set ts \<Longrightarrow> distinct (remdups_adj ts) \<Longrightarrow> distinct (remdups_adj (ts @ [i]))"
proof (cases ts rule: rev_cases)
  case Nil
  then show ?thesis by simp
next
  case (snoc ys l)
  assume a: "i \<notin> set ts" "distinct (remdups_adj ts)"
  with snoc have "l \<noteq> i" by auto
  then have "remdups_adj (ts @ [i]) = remdups_adj ts @ [i]"
    using snoc by (simp add: remdups_adj_append_two)
  with a show ?thesis by simp
qed

lemma ainv_I:
  assumes "\<And>i j. i < length ms \<Longrightarrow> j < length ms \<Longrightarrow> crit (ms ! i) \<Longrightarrow> crit (ms ! j) \<Longrightarrow> i = j"
    and "held \<longleftrightarrow> (\<exists>i<length ms. crit (ms ! i))"
    and "\<And>i. i < length ms \<Longrightarrow> ms ! i = Pre \<or> ms ! i = CsPre \<Longrightarrow> i \<notin> set ts"
    and "\<And>i. i < length ms \<Longrightarrow> ms ! i = CsSent \<Longrightarrow> ts \<noteq> [] \<and> last ts = i"
    and "distinct (remdups_adj ts)"
  shows "ainv held ms ts"
  using assms unfolding ainv_def by blast

lemma ainv_excl:
  "ainv held ms ts \<Longrightarrow> i < length ms \<Longrightarrow> j < length ms \<Longrightarrow> crit (ms ! i) \<Longrightarrow> crit (ms ! j) \<Longrightarrow> i = j"
  unfolding ainv_def by blast

lemma ainv_held: "ainv held ms ts \<Longrightarrow> held \<longleftrightarrow> (\<exists>i<length ms. crit (ms ! i))"
  unfolding ainv_def by blast

lemma ainv_fresh:
  "ainv held ms ts \<Longrightarrow> i < length ms \<Longrightarrow> ms ! i = Pre \<or> ms ! i = CsPre \<Longrightarrow> i \<notin> set ts"
  unfolding ainv_def by blast

lemma ainv_last:
  "ainv held ms ts \<Longrightarrow> i < length ms \<Longrightarrow> ms ! i = CsSent \<Longrightarrow> ts \<noteq> [] \<and> last ts = i"
  unfolding ainv_def by blast

lemma ainv_serial: "ainv held ms ts \<Longrightarrow> distinct (remdups_adj ts)"
  unfolding ainv_def by blast

lemma upd_nth:
  "i < length ms \<Longrightarrow> j < length ms \<Longrightarrow> ms[i := m] ! j = (if j = i then m else ms ! j)"
  by (simp add: nth_list_update)

lemma ainv_bail:
  assumes a: "ainv held ms ts" and i: "i < length ms" and m: "ms ! i = Pre"
  shows "ainv held (ms[i := Post]) ts"
proof (rule ainv_I)
  have nc: "\<not> crit (ms ! i)" "\<not> crit Post" using m by (simp_all add: crit_def)
  have up: "crit ((ms[i := Post]) ! j) \<longleftrightarrow> crit (ms ! j)" if "j < length ms" for j
    using nc upd_nth [OF i that, of Post] by (cases "j = i") simp_all
  show "j = k" if "j < length (ms[i := Post])" "k < length (ms[i := Post])"
      "crit (ms[i := Post] ! j)" "crit (ms[i := Post] ! k)" for j k
  proof -
    from that have jk: "j < length ms" "k < length ms" by simp_all
    with that up have "crit (ms ! j)" "crit (ms ! k)" by blast+
    with jk show ?thesis by (rule ainv_excl [OF a])
  qed
  show "held \<longleftrightarrow> (\<exists>j<length (ms[i := Post]). crit (ms[i := Post] ! j))"
  proof -
    have "(\<exists>j<length (ms[i := Post]). crit (ms[i := Post] ! j)) \<longleftrightarrow> (\<exists>j<length ms. crit (ms ! j))"
      using up by auto
    with ainv_held [OF a] show ?thesis by simp
  qed
  show "j \<notin> set ts" if "j < length (ms[i := Post])"
      "ms[i := Post] ! j = Pre \<or> ms[i := Post] ! j = CsPre" for j
  proof -
    from that have j: "j < length ms" by simp
    from that(2) upd_nth [OF i j, of Post] have "ms ! j = Pre \<or> ms ! j = CsPre"
      by (cases "j = i") simp_all
    with j show ?thesis by (rule ainv_fresh [OF a])
  qed
  show "ts \<noteq> [] \<and> last ts = j" if "j < length (ms[i := Post])" "ms[i := Post] ! j = CsSent" for j
  proof -
    from that have j: "j < length ms" by simp
    from that(2) upd_nth [OF i j, of Post] have "ms ! j = CsSent"
      by (cases "j = i") simp_all
    with j show ?thesis by (rule ainv_last [OF a])
  qed
  show "distinct (remdups_adj ts)" by (rule ainv_serial [OF a])
qed

lemma ainv_acquire:
  assumes a: "ainv held ms ts" and i: "i < length ms" and m: "ms ! i = Pre" and h: "\<not> held"
  shows "ainv True (ms[i := CsPre]) ts"
proof (rule ainv_I)
  have none: "\<not> crit (ms ! j)" if "j < length ms" for j
    using ainv_held [OF a] h that by blast
  have up: "crit ((ms[i := CsPre]) ! j) \<longleftrightarrow> j = i" if "j < length ms" for j
    using none [OF that] upd_nth [OF i that, of CsPre] by (cases "j = i") (simp_all add: crit_def)
  show "j = k" if "j < length (ms[i := CsPre])" "k < length (ms[i := CsPre])"
      "crit (ms[i := CsPre] ! j)" "crit (ms[i := CsPre] ! k)" for j k
  proof -
    from that have jk: "j < length ms" "k < length ms" by simp_all
    from up [OF jk(1)] up [OF jk(2)] that(3,4) show ?thesis by simp
  qed
  show "True \<longleftrightarrow> (\<exists>j<length (ms[i := CsPre]). crit (ms[i := CsPre] ! j))"
    using up [OF i] i by auto
  show "j \<notin> set ts" if "j < length (ms[i := CsPre])"
      "ms[i := CsPre] ! j = Pre \<or> ms[i := CsPre] ! j = CsPre" for j
  proof -
    from that have j: "j < length ms" by simp
    from that(2) upd_nth [OF i j, of CsPre] m have "ms ! j = Pre \<or> ms ! j = CsPre"
      by (cases "j = i") simp_all
    with j show ?thesis by (rule ainv_fresh [OF a])
  qed
  show "ts \<noteq> [] \<and> last ts = j" if "j < length (ms[i := CsPre])" "ms[i := CsPre] ! j = CsSent" for j
  proof -
    from that have j: "j < length ms" by simp
    from that(2) upd_nth [OF i j, of CsPre] have "ms ! j = CsSent"
      by (cases "j = i") simp_all
    with j show ?thesis by (rule ainv_last [OF a])
  qed
  show "distinct (remdups_adj ts)" by (rule ainv_serial [OF a])
qed

lemma ainv_send:
  assumes a: "ainv held ms ts" and i: "i < length ms" and m: "crit (ms ! i)"
  shows "ainv held (ms[i := CsSent]) (ts @ [i])"
proof (rule ainv_I)
  have only: "j = i" if "j < length ms" "crit (ms ! j)" for j
    using ainv_excl [OF a that(1) i that(2) m] .
  have up: "crit ((ms[i := CsSent]) ! j) \<longleftrightarrow> j = i" if "j < length ms" for j
  proof (cases "j = i")
    case True
    with upd_nth [OF i that, of CsSent] show ?thesis by (simp add: crit_def)
  next
    case False
    with upd_nth [OF i that, of CsSent] only [OF that] show ?thesis by auto
  qed
  show "j = k" if "j < length (ms[i := CsSent])" "k < length (ms[i := CsSent])"
      "crit (ms[i := CsSent] ! j)" "crit (ms[i := CsSent] ! k)" for j k
  proof -
    from that have jk: "j < length ms" "k < length ms" by simp_all
    from up [OF jk(1)] up [OF jk(2)] that(3,4) show ?thesis by simp
  qed
  have "held" using ainv_held [OF a] i m by blast
  then show "held \<longleftrightarrow> (\<exists>j<length (ms[i := CsSent]). crit (ms[i := CsSent] ! j))"
    using up [OF i] i by auto
  show "j \<notin> set (ts @ [i])" if "j < length (ms[i := CsSent])"
      "ms[i := CsSent] ! j = Pre \<or> ms[i := CsSent] ! j = CsPre" for j
  proof -
    from that have j: "j < length ms" by simp
    from that(2) upd_nth [OF i j, of CsSent] have ji: "j \<noteq> i" by auto
    with that(2) upd_nth [OF i j, of CsSent] have "ms ! j = Pre \<or> ms ! j = CsPre" by simp
    with j have "j \<notin> set ts" by (rule ainv_fresh [OF a])
    with ji show ?thesis by simp
  qed
  show "ts @ [i] \<noteq> [] \<and> last (ts @ [i]) = j"
    if "j < length (ms[i := CsSent])" "ms[i := CsSent] ! j = CsSent" for j
  proof -
    from that have j: "j < length ms" by simp
    from that(2) have "crit (ms[i := CsSent] ! j)" by (simp add: crit_def)
    with up [OF j] show ?thesis by simp
  qed
  show "distinct (remdups_adj (ts @ [i]))"
  proof (cases "ms ! i = CsSent")
    case True
    from ainv_last [OF a i True] have "remdups_adj (ts @ [i]) = remdups_adj ts"
      by (simp add: remdups_adj_snoc_same)
    with ainv_serial [OF a] show ?thesis by simp
  next
    case False
    with m have "ms ! i = CsPre" by (simp add: crit_def)
    with ainv_fresh [OF a i] have "i \<notin> set ts" by simp
    then show ?thesis using ainv_serial [OF a] by (rule remdups_adj_snoc_new)
  qed
qed

lemma ainv_release:
  assumes a: "ainv held ms ts" and i: "i < length ms" and m: "ms ! i = CsSent"
  shows "ainv False (ms[i := Post]) ts"
proof (rule ainv_I)
  have c: "crit (ms ! i)" using m by (simp add: crit_def)
  have only: "j = i" if "j < length ms" "crit (ms ! j)" for j
    using ainv_excl [OF a that(1) i that(2) c] .
  have up: "\<not> crit ((ms[i := Post]) ! j)" if "j < length ms" for j
  proof (cases "j = i")
    case True
    with upd_nth [OF i that, of Post] show ?thesis by (simp add: crit_def)
  next
    case False
    with upd_nth [OF i that, of Post] only [OF that] show ?thesis by auto
  qed
  show "j = k" if "j < length (ms[i := Post])" "k < length (ms[i := Post])"
      "crit (ms[i := Post] ! j)" "crit (ms[i := Post] ! k)" for j k
  proof -
    from that have jk: "j < length ms" by simp
    from up [OF jk] that(3) show ?thesis by simp
  qed
  show "False \<longleftrightarrow> (\<exists>j<length (ms[i := Post]). crit (ms[i := Post] ! j))"
    using up by simp
  show "j \<notin> set ts" if "j < length (ms[i := Post])"
      "ms[i := Post] ! j = Pre \<or> ms[i := Post] ! j = CsPre" for j
  proof -
    from that have j: "j < length ms" by simp
    from that(2) upd_nth [OF i j, of Post] have "ms ! j = Pre \<or> ms ! j = CsPre"
      by (cases "j = i") simp_all
    with j show ?thesis by (rule ainv_fresh [OF a])
  qed
  show "ts \<noteq> [] \<and> last ts = j" if "j < length (ms[i := Post])" "ms[i := Post] ! j = CsSent" for j
  proof -
    from that have j: "j < length ms" by simp
    from that(2) upd_nth [OF i j, of Post] have "ms ! j = CsSent"
      by (cases "j = i") simp_all
    with j show ?thesis by (rule ainv_last [OF a])
  qed
  show "distinct (remdups_adj ts)" by (rule ainv_serial [OF a])
qed


lemma kzalloc_buf_eff:
  "kzalloc_buf K hdev n = (r, hdev') \<Longrightarrow>
   mutex_held hdev' = mutex_held hdev \<and> data_counter hdev' = data_counter hdev
   \<and> transport_calls (new_events hdev hdev') = []
   \<and> (r = None \<or> r = Some (replicate n 0))"
  by (auto simp add: kzalloc_buf_def log_event_def new_events_def case_prod_beta Let_def
      mutex_held_def data_counter_def split: if_splits)

lemma mutex_lock_eff:
  "mutex_lock hdev = Some hdev' \<Longrightarrow>
   \<not> mutex_held hdev \<and> mutex_held hdev' \<and> data_counter hdev' = data_counter hdev
   \<and> transport_calls (new_events hdev hdev') = []"
  by (auto simp add: mutex_lock_def log_event_def new_events_def mutex_held_def data_counter_def
      split: option.splits if_splits)

lemma raw_request_eff:
  "raw_request K hdev num rep n rt rq = (ret, rep', hdev') \<Longrightarrow>
   mutex_held hdev' = mutex_held hdev \<and> data_counter hdev' = data_counter hdev
   \<and> transport_calls (new_events hdev hdev') =
       [(\<lparr>reportnum = num, buf = rep, len = n, rtype = rt, reqtype = rq\<rparr>, ret)]
   \<and> length rep' = length rep"
  by (auto simp add: raw_request_def log_event_def new_events_def case_prod_beta Let_def
      mutex_held_def data_counter_def)

lemma hid_hw_wait_eff:
  "mutex_held (hid_hw_wait hdev) = mutex_held hdev
   \<and> data_counter (hid_hw_wait hdev) = data_counter hdev
   \<and> transport_calls (new_events hdev (hid_hw_wait hdev)) = []"
  by (simp add: hid_hw_wait_def log_event_def new_events_def mutex_held_def data_counter_def)

lemma kfree_eff:
  "mutex_held (kfree hdev) = mutex_held hdev \<and> data_counter (kfree hdev) = data_counter hdev
   \<and> transport_calls (new_events hdev (kfree hdev)) = []"
  by (simp add: kfree_def log_event_def new_events_def mutex_held_def data_counter_def)

lemma mutex_unlock_eff:
  "\<not> mutex_held (mutex_unlock hdev) \<and> data_counter (mutex_unlock hdev) = data_counter hdev
   \<and> transport_calls (new_events hdev (mutex_unlock hdev)) = []"
  by (cases "drvdata hdev")
     (simp_all add: mutex_unlock_def log_event_def new_events_def mutex_held_def data_counter_def)

lemma new_events_same [simp]: "new_events hdev hdev = []"
  by (simp add: new_events_def)

lemma op_step_elim:
  assumes "op_step K op hdev p = Some (hdev', p')"
  obtains
    (entry_none) "p = P_entry" "drvdata hdev = None" "hdev' = hdev"
      "p' = P_done (- ENODATA) (out0 op)"
  | (entry) "p = P_entry" "hdev' = hdev" "p' = P_alloc"
  | (alloc_fail) "p = P_alloc" "kzalloc_buf K hdev 39 = (None, hdev')"
      "p' = P_done (- ENOMEM) (out0 op)"
  | (alloc) "p = P_alloc" "kzalloc_buf K hdev 39 = (Some (replicate 39 0), hdev')"
      "p' = P_lock (replicate 39 0)"
  | (lock) report where "p = P_lock report" "mutex_lock hdev = Some hdev'" "p' = P_build report"
  | (build) report where "p = P_build report" "hdev' = hdev"
      "p' = P_request (op_build op (data_counter hdev) report)"
  | (request) report ret report' where "p = P_request report"
      "raw_request K hdev (op_reportnum op) report 39 HID_FEATURE_REPORT HID_REQ_SET_REPORT
         = (ret, report', hdev')"
      "p' = P_wait ret report'"
  | (wait_fail) ret report where "p = P_wait ret report" "ret <s 0" "hdev' = hid_hw_wait hdev"
      "p' = P_unlock (- ECOMM) (out0 op)"
  | (wait_set) ret report where "p = P_wait ret report" "\<not> ret <s 0" "\<not> is_get op"
      "hdev' = hid_hw_wait hdev" "p' = P_unlock 0 (out0 op)"
  | (wait_get) ret report where "p = P_wait ret report" "\<not> ret <s 0" "is_get op"
      "hdev' = hid_hw_wait hdev" "p' = P_request2 report"
  | (request2) report ret report' where "p = P_request2 report"
      "raw_request K hdev 3 report 39 HID_FEATURE_REPORT HID_REQ_GET_REPORT = (ret, report', hdev')"
      "p' = P_wait2 ret report'"
  | (wait2_fail) ret report where "p = P_wait2 ret report" "ret <s 0" "hdev' = hid_hw_wait hdev"
      "p' = P_unlock (- ECOMM) (out0 op)"
  | (wait2) ret report where "p = P_wait2 ret report" "\<not> ret <s 0" "hdev' = hid_hw_wait hdev"
      "p' = P_unlock 0 (le32_at report 7)"
  | (unlock) r v where "p = P_unlock r v" "hdev' = mutex_unlock hdev" "p' = P_free r v"
  | (free) r v where "p = P_free r v" "hdev' = kfree hdev" "p' = P_done r v"
proof (cases p)
  case P_entry
  show ?thesis
  proof (cases "drvdata hdev")
    case None
    with assms P_entry have "hdev' = hdev" "p' = P_done (- ENODATA) (out0 op)"
      by (simp_all add: hid_get_drvdata_def)
    with P_entry None show ?thesis by (rule entry_none)
  next
    case (Some d)
    with assms P_entry have "hdev' = hdev" "p' = P_alloc"
      by (simp_all add: hid_get_drvdata_def)
    with P_entry show ?thesis by (rule entry)
  qed
next
  case P_alloc
  obtain r h where k: "kzalloc_buf K hdev 39 = (r, h)" by (cases "kzalloc_buf K hdev 39")
  from kzalloc_buf_eff [OF k] have "r = None \<or> r = Some (replicate 39 0)" by blast
  then show ?thesis
  proof
    assume r: "r = None"
    with assms P_alloc k have "h = hdev'" "p' = P_done (- ENOMEM) (out0 op)" by simp_all
    with k r P_alloc show ?thesis by (intro alloc_fail) simp_all
  next
    assume r: "r = Some (replicate 39 0)"
    with assms P_alloc k have "h = hdev'" "p' = P_lock (replicate 39 0)" by simp_all
    with k r P_alloc show ?thesis by (intro alloc) simp_all
  qed
next
  case (P_lock report)
  with assms have "mutex_lock hdev = Some hdev'" "p' = P_build report"
    by (simp_all split: option.splits)
  with P_lock show ?thesis by (rule lock)
next
  case (P_build report)
  with assms have "hdev' = hdev" "p' = P_request (op_build op (data_counter hdev) report)"
    by (auto simp add: Let_def)
  with P_build show ?thesis by (rule build)
next
  case (P_request report)
  obtain ret report' h where r:
    "raw_request K hdev (op_reportnum op) report 39 HID_FEATURE_REPORT HID_REQ_SET_REPORT
       = (ret, report', h)"
    by (metis prod_cases3)
  with assms P_request have "h = hdev'" "p' = P_wait ret report'" by simp_all
  with r P_request show ?thesis by (intro request) simp_all
next
  case (P_wait ret report)
  show ?thesis
  proof (cases "ret <s 0")
    case True
    with assms P_wait have "hdev' = hid_hw_wait hdev" "p' = P_unlock (- ECOMM) (out0 op)"
      by (simp_all add: Let_def)
    with P_wait True show ?thesis by (rule wait_fail)
  next
    case False
    show ?thesis
    proof (cases op)
      case (OpSet usage v)
      with assms P_wait False have "hdev' = hid_hw_wait hdev" "p' = P_unlock 0 (out0 op)"
        by (simp_all add: Let_def)
      moreover from OpSet have "\<not> is_get op" by (simp add: is_get_def)
      ultimately show ?thesis using P_wait False by (intro wait_set) simp_all
    next
      case (OpGet usage pv)
      with assms P_wait False have "hdev' = hid_hw_wait hdev" "p' = P_request2 report"
        by (simp_all add: Let_def)
      moreover from OpGet have "is_get op" by (simp add: is_get_def)
      ultimately show ?thesis using P_wait False by (intro wait_get) simp_all
    qed
  qed
next
  case (P_request2 report)
  obtain ret report' h where r:
    "raw_request K hdev 3 report 39 HID_FEATURE_REPORT HID_REQ_GET_REPORT = (ret, report', h)"
    by (metis prod_cases3)
  with assms P_request2 have "h = hdev'" "p' = P_wait2 ret report'" by simp_all
  with r P_request2 show ?thesis by (intro request2) simp_all
next
  case (P_wait2 ret report)
  show ?thesis
  proof (cases "ret <s 0")
    case True
    with assms P_wait2 have "hdev' = hid_hw_wait hdev" "p' = P_unlock (- ECOMM) (out0 op)"
      by (simp_all add: Let_def)
    with P_wait2 True show ?thesis by (rule wait2_fail)
  next
    case False
    with assms P_wait2 have "hdev' = hid_hw_wait hdev" "p' = P_unlock 0 (le32_at report 7)"
      by (simp_all add: Let_def)
    with P_wait2 False show ?thesis by (rule wait2)
  qed
next
  case (P_unlock r v)
  with assms have "hdev' = mutex_unlock hdev" "p' = P_free r v" by simp_all
  with P_unlock show ?thesis by (rule unlock)
next
  case (P_free r v)
  with assms have "hdev' = kfree hdev" "p' = P_done r v" by simp_all
  with P_free show ?thesis by (rule free)
next
  case (P_done r v)
  with assms show ?thesis by simp
qed

lemma op_step_counter:
  assumes "op_step K op hdev p = Some (hdev', p')"
  shows "data_counter hdev' = data_counter hdev"
  using assms
proof (cases rule: op_step_elim)
  case alloc_fail
  from kzalloc_buf_eff [OF alloc_fail(2)] show ?thesis by simp
next
  case alloc
  from kzalloc_buf_eff [OF alloc(2)] show ?thesis by simp
next
  case (lock report)
  from mutex_lock_eff [OF lock(2)] show ?thesis by simp
next
  case (request report ret report')
  from raw_request_eff [OF request(2)] show ?thesis by simp
next
  case (request2 report ret report')
  from raw_request_eff [OF request2(2)] show ?thesis by simp
qed (simp_all add: hid_hw_wait_eff kfree_eff mutex_unlock_eff)

lemma op_step_abs:
  assumes "op_step K op hdev p = Some (hdev', p')"
  shows "(mode_of p' = mode_of p \<and> mutex_held hdev' = mutex_held hdev
            \<and> transport_calls (new_events hdev hdev') = [])
       \<or> (mode_of p = Pre \<and> mode_of p' = Post \<and> mutex_held hdev' = mutex_held hdev
            \<and> transport_calls (new_events hdev hdev') = [])
       \<or> (mode_of p = Pre \<and> mode_of p' = CsPre \<and> \<not> mutex_held hdev \<and> mutex_held hdev'
            \<and> transport_calls (new_events hdev hdev') = [])
       \<or> (crit (mode_of p) \<and> mode_of p' = CsSent \<and> mutex_held hdev' = mutex_held hdev
            \<and> (\<exists>c r. transport_calls (new_events hdev hdev') = [(c, r)]))
       \<or> (mode_of p = CsSent \<and> mode_of p' = Post \<and> \<not> mutex_held hdev'
            \<and> transport_calls (new_events hdev hdev') = [])"
  using assms
proof (cases rule: op_step_elim)
  case entry_none
  then show ?thesis by simp
next
  case entry
  then show ?thesis by simp
next
  case alloc_fail
  with kzalloc_buf_eff [OF alloc_fail(2)] show ?thesis by simp
next
  case alloc
  with kzalloc_buf_eff [OF alloc(2)] show ?thesis by simp
next
  case (lock report)
  with mutex_lock_eff [OF lock(2)] show ?thesis by simp
next
  case (build report)
  then show ?thesis by simp
next
  case (request report ret report')
  with raw_request_eff [OF request(2)] show ?thesis by (simp add: crit_def)
next
  case (wait_fail ret report)
  then show ?thesis by (simp add: hid_hw_wait_eff)
next
  case (wait_set ret report)
  then show ?thesis by (simp add: hid_hw_wait_eff)
next
  case (wait_get ret report)
  then show ?thesis by (simp add: hid_hw_wait_eff)
next
  case (request2 report ret report')
  with raw_request_eff [OF request2(2)] show ?thesis by (simp add: crit_def)
next
  case (wait2_fail ret report)
  then show ?thesis by (simp add: hid_hw_wait_eff)
next
  case (wait2 ret report)
  then show ?thesis by (simp add: hid_hw_wait_eff)
next
  case (unlock r v)
  then show ?thesis by (simp add: mutex_unlock_eff)
next
  case (free r v)
  then show ?thesis by (simp add: kfree_eff)
qed


lemma sys_step_D:
  assumes "sys_step K s i = Some s'"
  obtains op p hdev' p' where "i < length (ops s)" "ops s ! i = (op, p)"
    "op_step K op (device s) p = Some (hdev', p')"
    "device s' = hdev'" "ops s' = (ops s)[i := (op, p')]"
    "tlog s' = tlog s @ map (\<lambda>(c, r). (i, c, r)) (transport_calls (new_events (device s) hdev'))"
proof -
  from assms have i: "i < length (ops s)"
    by (simp add: sys_step_def split: if_splits)
  obtain op p where o: "ops s ! i = (op, p)" by (cases "ops s ! i")
  from assms i o obtain hdev' p' where st: "op_step K op (device s) p = Some (hdev', p')"
    by (cases "op_step K op (device s) p") (auto simp add: sys_step_def)
  from assms i o st have "s' = \<lparr>device = hdev', ops = (ops s)[i := (op, p')],
      tlog = tlog s @ map (\<lambda>(c, r). (i, c, r)) (transport_calls (new_events (device s) hdev'))\<rparr>"
    by (simp add: sys_step_def)
  then have "device s' = hdev'" "ops s' = (ops s)[i := (op, p')]"
    "tlog s' = tlog s @ map (\<lambda>(c, r). (i, c, r)) (transport_calls (new_events (device s) hdev'))"
    by simp_all
  with i o st show ?thesis by (rule that)
qed

lemma sys_step_excl:
  assumes inv: "excl_inv s" and st: "sys_step K s i = Some s'"
  shows "excl_inv s'"
  using st
proof (cases rule: sys_step_D)
  case (1 op p hdev' p')
  let ?ms = "modes s" and ?ts = "map fst (tlog s)"
  from inv have a: "ainv (mutex_held (device s)) ?ms ?ts" by (simp add: excl_inv_def)
  from 1(1) have i: "i < length ?ms" by (simp add: modes_def)
  from 1(1,2) have mi: "?ms ! i = mode_of p" by (simp add: modes_def)
  from 1(5) have ms': "modes s' = ?ms[i := mode_of p']"
    by (simp add: modes_def map_update)
  have ts': "map fst (tlog s') = ?ts @ replicate (length (transport_calls (new_events (device s) hdev'))) i"
    unfolding 1(6) by (simp add: case_prod_beta map_replicate_const comp_def)
  from op_step_abs [OF 1(3)] consider
    (quiet) "mode_of p' = mode_of p" "mutex_held hdev' = mutex_held (device s)"
      "transport_calls (new_events (device s) hdev') = []"
  | (bail) "mode_of p = Pre" "mode_of p' = Post" "mutex_held hdev' = mutex_held (device s)"
      "transport_calls (new_events (device s) hdev') = []"
  | (acquire) "mode_of p = Pre" "mode_of p' = CsPre" "\<not> mutex_held (device s)" "mutex_held hdev'"
      "transport_calls (new_events (device s) hdev') = []"
  | (send) c r where "crit (mode_of p)" "mode_of p' = CsSent"
      "mutex_held hdev' = mutex_held (device s)"
      "transport_calls (new_events (device s) hdev') = [(c, r)]"
  | (release) "mode_of p = CsSent" "mode_of p' = Post" "\<not> mutex_held hdev'"
      "transport_calls (new_events (device s) hdev') = []"
    by blast
  then have "ainv (mutex_held hdev') (?ms[i := mode_of p'])
      (?ts @ replicate (length (transport_calls (new_events (device s) hdev'))) i)"
  proof cases
    case quiet
    from mi have "?ms[i := mode_of p] = ?ms" by (metis list_update_id)
    with quiet a show ?thesis by simp
  next
    case bail
    with ainv_bail [OF a i] mi show ?thesis by simp
  next
    case acquire
    with ainv_acquire [OF a i] mi show ?thesis by simp
  next
    case (send c r)
    with ainv_send [OF a i] mi show ?thesis by simp
  next
    case release
    with ainv_release [OF a i] mi show ?thesis by simp
  qed
  then show ?thesis
    by (simp add: excl_inv_def ms' ts' 1(4))
qed

lemma run_schedule_excl: "excl_inv s \<Longrightarrow> excl_inv (run_schedule K s sched)"
proof (induction sched arbitrary: s)
  case Nil
  then show ?case by simp
next
  case (Cons i sched)
  show ?case
  proof (cases "sys_step K s i")
    case None
    with Cons show ?thesis by simp
  next
    case (Some s')
    from sys_step_excl [OF Cons.prems Some] have "excl_inv s'" .
    from Cons.IH [OF this] Some show ?thesis by simp
  qed
qed

lemma idle_excl: "idle s \<Longrightarrow> excl_inv s"
  by (auto simp add: idle_def excl_inv_def ainv_def modes_def crit_def list_all_length
      case_prod_beta)


lemma op_build_frame: "op_build op c (replicate 39 0) = buf (first_call op c)"
  by (cases op) (simp_all add: op_build_def first_call_def set_call_def get_write_call_def
      set_frame_def get_frame_def)

lemma first_call_eq:
  "\<lparr>reportnum = op_reportnum op, buf = buf (first_call op c), len = 39,
    rtype = HID_FEATURE_REPORT, reqtype = HID_REQ_SET_REPORT\<rparr> = first_call op c"
  by (cases op) (simp_all add: op_reportnum_def first_call_def set_call_def get_write_call_def)

lemma first_call_length: "length (buf (first_call op c)) = 39"
  by (cases op) (simp_all add: first_call_def set_call_def get_write_call_def set_frame_length
      get_frame_length)

lemma first_call_reqtype: "reqtype (first_call op c) = HID_REQ_SET_REPORT"
  by (cases op) (simp_all add: first_call_def set_call_def get_write_call_def)

lemma op_step_frames:
  assumes st: "op_step K op hdev p = Some (hdev', p')" and ok: "pc_ok c op p"
    and c: "data_counter hdev = c"
  shows "pc_ok c op p'
       \<and> (\<forall>(call, r) \<in> set (transport_calls (new_events hdev hdev')). well_formed c op call)"
  using st
proof (cases rule: op_step_elim)
  case entry_none
  then show ?thesis by (simp add: pc_ok_def)
next
  case entry
  then show ?thesis by (simp add: pc_ok_def)
next
  case alloc_fail
  with kzalloc_buf_eff [OF alloc_fail(2)] show ?thesis by (simp add: pc_ok_def)
next
  case alloc
  with kzalloc_buf_eff [OF alloc(2)] show ?thesis by (simp add: pc_ok_def)
next
  case (lock report)
  with mutex_lock_eff [OF lock(2)] ok show ?thesis by (simp add: pc_ok_def)
next
  case (build report)
  with ok c show ?thesis by (simp add: pc_ok_def op_build_frame)
next
  case (request report ret report')
  from request(1) ok have r: "report = buf (first_call op c)" by (simp add: pc_ok_def)
  from raw_request_eff [OF request(2)] r request(3) show ?thesis
    by (simp add: pc_ok_def first_call_eq first_call_length well_formed_def first_call_reqtype)
next
  case (wait_fail ret report)
  then show ?thesis by (simp add: hid_hw_wait_eff pc_ok_def)
next
  case (wait_set ret report)
  then show ?thesis by (simp add: hid_hw_wait_eff pc_ok_def)
next
  case (wait_get ret report)
  with ok show ?thesis by (simp add: hid_hw_wait_eff pc_ok_def)
next
  case (request2 report ret report')
  from request2(1) ok have r: "length report = 39" "is_get op" by (simp_all add: pc_ok_def)
  from raw_request_eff [OF request2(2)] r request2(3) show ?thesis
    by (simp add: pc_ok_def well_formed_def)
next
  case (wait2_fail ret report)
  then show ?thesis by (simp add: hid_hw_wait_eff pc_ok_def)
next
  case (wait2 ret report)
  then show ?thesis by (simp add: hid_hw_wait_eff pc_ok_def)
next
  case (unlock r v)
  then show ?thesis by (simp add: mutex_unlock_eff pc_ok_def)
next
  case (free r v)
  then show ?thesis by (simp add: kfree_eff pc_ok_def)
qed

lemma sys_step_frames:
  assumes inv: "frame_inv c s" and st: "sys_step K s i = Some s'"
  shows "frame_inv c s'"
  using st
proof (cases rule: sys_step_D)
  case (1 op p hdev' p')
  from inv have c: "data_counter (device s) = c"
    and oks: "\<And>j. j < length (ops s) \<Longrightarrow> pc_ok c (fst (ops s ! j)) (snd (ops s ! j))"
    and wf: "\<And>j call r. (j, call, r) \<in> set (tlog s) \<Longrightarrow>
               j < length (ops s) \<and> well_formed c (fst (ops s ! j)) call"
    unfolding frame_inv_def by blast+
  from oks [OF 1(1)] 1(2) have ok: "pc_ok c op p" by simp
  from op_step_frames [OF 1(3) ok c] have ok': "pc_ok c op p'"
    and new: "\<And>call r. (call, r) \<in> set (transport_calls (new_events (device s) hdev')) \<Longrightarrow>
                well_formed c op call"
    by blast+
  have fst_same: "fst (ops s' ! j) = fst (ops s ! j)" if "j < length (ops s)" for j
    using that 1(1,2,5) by (cases "j = i") (simp_all add: nth_list_update)
  have A: "data_counter (device s') = c"
    using op_step_counter [OF 1(3)] c 1(4) by simp
  have B: "pc_ok c (fst (ops s' ! j)) (snd (ops s' ! j))" if "j < length (ops s')" for j
  proof (cases "j = i")
    case True
    with 1(1,5) ok' show ?thesis by simp
  next
    case False
    with that 1(5) oks [of j] show ?thesis by simp
  qed
  have C: "j < length (ops s') \<and> well_formed c (fst (ops s' ! j)) call"
    if "(j, call, r) \<in> set (tlog s')" for j call r
  proof -
    from that 1(6) consider "(j, call, r) \<in> set (tlog s)"
      | "j = i" "(call, r) \<in> set (transport_calls (new_events (device s) hdev'))"
      by auto
    then show ?thesis
    proof cases
      case 1
      from wf [OF 1] fst_same [of j] \<open>ops s' = (ops s)[i := (op, p')]\<close> show ?thesis by simp
    next
      case 2
      from new [OF 2(2)] fst_same [OF \<open>i < length (ops s)\<close>] 2(1) \<open>i < length (ops s)\<close>
        \<open>ops s ! i = (op, p)\<close> \<open>ops s' = (ops s)[i := (op, p')]\<close>
      show ?thesis by simp
    qed
  qed
  from A B C show ?thesis unfolding frame_inv_def by blast
qed

lemma run_schedule_frames: "frame_inv c s \<Longrightarrow> frame_inv c (run_schedule K s sched)"
proof (induction sched arbitrary: s)
  case Nil
  then show ?case by simp
next
  case (Cons i sched)
  show ?case
  proof (cases "sys_step K s i")
    case None
    with Cons show ?thesis by simp
  next
    case (Some s')
    from sys_step_frames [OF Cons.prems Some] have "frame_inv c s'" .
    from Cons.IH [OF this] Some show ?thesis by simp
  qed
qed

lemma idle_frames: "idle s \<Longrightarrow> frame_inv (data_counter (device s)) s"
  by (auto simp add: idle_def frame_inv_def list_all_length pc_ok_def case_prod_beta)

lemma run_schedule_ops:
  "length (ops (run_schedule K s sched)) = length (ops s)
   \<and> map fst (ops (run_schedule K s sched)) = map fst (ops s)"
proof (induction sched arbitrary: s)
  case Nil
  then show ?case by simp
next
  case (Cons i sched)
  show ?case
  proof (cases "sys_step K s i")
    case None
    with Cons show ?thesis by simp
  next
    case (Some s')
    then have "length (ops s') = length (ops s) \<and> map fst (ops s') = map fst (ops s)"
    proof (cases rule: sys_step_D)
      case (1 op p hdev' p')
      then show ?thesis by (simp add: map_update) (metis fst_conv list_update_id map_update)
    qed
    with Cons.IH [of s'] Some show ?thesis by simp
  qed
qed


lemma op_run_numeral:
  "op_run (numeral k) K op hdev p =
     (case op_step K op hdev p of
        None \<Rightarrow> (hdev, p)
      | Some (hdev', p') \<Rightarrow> op_run (pred_numeral k) K op hdev' p')"
  by (simp add: numeral_eq_Suc)

lemma set_value_as_steps:
  "eizo_set_value K hdev usage v =
     map_option (\<lambda>(r, _, h). (r, h)) (op_result (op_run 10 K (OpSet usage v) hdev P_entry))"
proof (cases "hid_get_drvdata hdev")
  case None
  then show ?thesis
    by (simp add: eizo_set_value_def op_run_numeral op_result_def out0_def)
next
  case (Some d)
  obtain r h1 where k: "kzalloc_buf K hdev 39 = (r, h1)" by (cases "kzalloc_buf K hdev 39")
  show ?thesis
  proof (cases r)
    case None
    with Some k show ?thesis
      by (simp add: eizo_set_value_def op_run_numeral op_result_def out0_def)
  next
    case (Some report)
    note rep = this
    show ?thesis
    proof (cases "mutex_lock h1")
      case None
      with \<open>hid_get_drvdata hdev = Some d\<close> k rep show ?thesis
        by (simp add: eizo_set_value_def op_run_numeral op_result_def out0_def)
    next
      case (Some h2)
      obtain ret rep' h3 where rr:
        "raw_request K h2 2 (put_value (put_counter (put_usage report usage)
            (ucast (data_counter h2))) v) 39 HID_FEATURE_REPORT HID_REQ_SET_REPORT
         = (ret, rep', h3)"
        by (metis prod_cases3)
      with \<open>hid_get_drvdata hdev = Some d\<close> k rep Some show ?thesis
        by (cases "ret <s 0")
           (simp_all add: eizo_set_value_def op_run_numeral op_result_def out0_def op_build_def
              op_reportnum_def Let_def)
    qed
  qed
qed

lemma get_value_as_steps:
  "eizo_get_value K hdev usage pv = op_result (op_run 10 K (OpGet usage pv) hdev P_entry)"
proof (cases "hid_get_drvdata hdev")
  case None
  then show ?thesis
    by (simp add: eizo_get_value_def op_run_numeral op_result_def out0_def)
next
  case (Some d)
  obtain r h1 where k: "kzalloc_buf K hdev 39 = (r, h1)" by (cases "kzalloc_buf K hdev 39")
  show ?thesis
  proof (cases r)
    case None
    with Some k show ?thesis
      by (simp add: eizo_get_value_def op_run_numeral op_result_def out0_def)
  next
    case (Some report)
    note rep = this
    show ?thesis
    proof (cases "mutex_lock h1")
      case None
      with \<open>hid_get_drvdata hdev = Some d\<close> k rep show ?thesis
        by (simp add: eizo_get_value_def op_run_numeral op_result_def out0_def)
    next
      case (Some h2)
      obtain ret rep' h3 where rr:
        "raw_request K h2 3 (put_counter (put_usage report usage) (ucast (data_counter h2)))
            39 HID_FEATURE_REPORT HID_REQ_SET_REPORT
         = (ret, rep', h3)"
        by (metis prod_cases3)
      obtain ret2 rep2 h4 where rr2:
        "raw_request K (hid_hw_wait h3) 3 rep' 39 HID_FEATURE_REPORT HID_REQ_GET_REPORT
         = (ret2, rep2, h4)"
        by (metis prod_cases3)
      from \<open>hid_get_drvdata hdev = Some d\<close> k rep Some rr rr2 show ?thesis
        by (cases "ret <s 0"; cases "ret2 <s 0")
           (simp_all add: eizo_get_value_def op_run_numeral op_result_def out0_def op_build_def
              op_reportnum_def Let_def)
    qed
  qed
qed


lemma op_run_stuck: "op_step K op hdev p = None \<Longrightarrow> op_run n K op hdev p = (hdev, p)"
  by (cases n) simp_all

lemma single_run:
  "device (run_schedule K \<lparr>device = hdev, ops = [(op, p)], tlog = t\<rparr> (replicate n 0))
     = fst (op_run n K op hdev p)
   \<and> ops (run_schedule K \<lparr>device = hdev, ops = [(op, p)], tlog = t\<rparr> (replicate n 0))
     = [(op, snd (op_run n K op hdev p))]"
proof (induction n arbitrary: hdev p t)
  case 0
  show ?case by simp
next
  case (Suc n)
  show ?case
  proof (cases "op_step K op hdev p")
    case None
    then have "sys_step K \<lparr>device = hdev, ops = [(op, p)], tlog = t\<rparr> 0 = None"
      by (simp add: sys_step_def)
    with Suc.IH [of hdev p t] op_run_stuck [OF None] show ?thesis by simp
  next
    case (Some x)
    obtain hdev' p' where x: "x = (hdev', p')" by (cases x)
    with Some have "sys_step K \<lparr>device = hdev, ops = [(op, p)], tlog = t\<rparr> 0 =
        Some \<lparr>device = hdev', ops = [(op, p')],
          tlog = t @ map (\<lambda>(c, r). (0, c, r)) (transport_calls (new_events hdev hdev'))\<rparr>"
      by (simp add: sys_step_def)
    with Suc.IH [of hdev' p'] Some x show ?thesis by simp
  qed
qed

lemma sys_step_sends:
  assumes inv: "excl_inv s" and st: "sys_step K s i = Some s'" and ch: "tlog s' \<noteq> tlog s"
  shows "in_cs (snd (ops s ! i)) \<and> mutex_held (device s)"
  using st
proof (cases rule: sys_step_D)
  case (1 op p hdev' p')
  from ch 1(6) have ne: "transport_calls (new_events (device s) hdev') \<noteq> []" by auto
  with op_step_abs [OF 1(3)] have c: "crit (mode_of p)" by auto
  with 1(2) have cs: "in_cs (snd (ops s ! i))" by (simp add: in_cs_mode)
  from inv have "mutex_held (device s) \<longleftrightarrow> (\<exists>j<length (modes s). crit (modes s ! j))"
    unfolding excl_inv_def by (rule ainv_held)
  moreover from 1(1,2) c have "i < length (modes s)" "crit (modes s ! i)"
    by (simp_all add: modes_def)
  ultimately have "mutex_held (device s)" by blast
  with cs show ?thesis by simp
qed

lemma le32_at_zero: "le32_at (replicate 39 0) 7 = 0"
  by (simp add: le32_at_7)

lemma buf_write_zero:
  "buf_write (put_counter (put_usage (replicate 39 0) usage) c) 39 (replicate 39 0)
     = replicate 39 0"
  by (rule buf_write_all) (simp_all add: put_counter_def put_usage_def)

lemma two_ops_run:
  "map fst (tlog (run_schedule (stub_kernel True 39 39) two_ops get_first)) = [1, 1, 0]
   \<and> ops (run_schedule (stub_kernel True 39 39) two_ops get_first)
       = [(OpSet 0x10 150, P_done 0 0), (OpGet 0x10 0, P_done 0 0)]"
  by (simp add: two_ops_def get_first_def sys_step_def attached_def
      hid_get_drvdata_def kzalloc_buf_def mutex_lock_def mutex_unlock_def data_counter_def
      raw_request_def hid_hw_wait_def kfree_def log_event_def new_events_def
      op_build_def op_reportnum_def out0_def Let_def le32_at_zero buf_write_zero)

section \<open>Frame encoding round trip\<close>

text \<open>
  Claim C1. Whatever the usage code and the value are (so also for the four usage codes,
  whatever \<^verbatim>\<open>eizo.h\<close> defines them to be, and for every value of the 32-bit signed
  range): when \<^verbatim>\<open>eizo_set_value\<close> returns 0, the one transport call it has made is on
  report 2 with a buffer whose bytes 1-4, read little-endian, are the usage and whose
  bytes 7-10 are the value; and every call of \<^verbatim>\<open>eizo_get_value\<close> whose read stores
  that frame into its buffer returns 0 with exactly that value in \<^verbatim>\<open>*value\<close>.
\<close>

theorem frame_roundtrip:
  assumes "eizo_set_value K hdev usage val = Some (0, hdev')"
  shows "\<exists>f ret.
      transport_calls (new_events hdev hdev') =
        [(\<lparr>reportnum = 2, buf = f, len = 39,
           rtype = HID_FEATURE_REPORT, reqtype = HID_REQ_SET_REPORT\<rparr>, ret)]
    \<and> le32_at f 1 = usage
    \<and> le32_at f 7 = val
    \<and> (hid_get_drvdata hdev2 = Some d2 \<and> \<not> lock d2
         \<and> kzalloc K2 (kern hdev2) 39 = (True, k1)
         \<and> hid_hw_raw_request K2 k1 (get_write_call usage2 (counter d2)) = ((r1, bytes1), k2)
         \<and> \<not> r1 <s 0
         \<and> hid_hw_raw_request K2 k2
              (get_read_call (buf_write (get_frame usage2 (counter d2)) 39 bytes1))
             = ((r2, f), k3)
         \<and> \<not> r2 <s 0
         \<longrightarrow> (\<exists>hdev3. eizo_get_value K2 hdev2 usage2 pv = Some (0, val, hdev3)))"
proof (cases rule: eizo_set_value_cases [where hdev = hdev and K = K and usage = usage and val = val])
  case no_data
  with assms show ?thesis by simp
next
  case (nomem d k1)
  with assms show ?thesis by simp
next
  case (blocked d k1)
  with assms show ?thesis by simp
next
  case (run d ka ret bytes kb)
  let ?f = "set_frame usage (counter d) val"
  from run(5) assms have tr: "trace hdev' = trace hdev @ [Kzalloc 39 True, MutexLock,
        RawRequest (set_call usage (counter d) val) ret, HwWait, MutexUnlock, Kfree]"
    by (auto split: if_splits)
  have calls: "transport_calls (new_events hdev hdev') =
        [(\<lparr>reportnum = 2, buf = ?f, len = 39,
           rtype = HID_FEATURE_REPORT, reqtype = HID_REQ_SET_REPORT\<rparr>, ret)]"
    by (simp add: new_events_append [OF tr] set_call_def)
  have get: "\<exists>hdev3. eizo_get_value K2 hdev2 usage2 pv = Some (0, val, hdev3)"
    if h: "hid_get_drvdata hdev2 = Some d2 \<and> \<not> lock d2
         \<and> kzalloc K2 (kern hdev2) 39 = (True, k1)
         \<and> hid_hw_raw_request K2 k1 (get_write_call usage2 (counter d2)) = ((r1, bytes1), k2)
         \<and> \<not> r1 <s 0
         \<and> hid_hw_raw_request K2 k2
              (get_read_call (buf_write (get_frame usage2 (counter d2)) 39 bytes1))
             = ((r2, ?f), k3)
         \<and> \<not> r2 <s 0"
  proof -
    from h have d2: "drvdata hdev2 = Some d2" by (simp add: hid_get_drvdata_def)
    have b: "buf_write (buf_write (get_frame usage2 (counter d2)) 39 bytes1) 39 ?f = ?f"
      by (rule buf_write_all) (simp_all add: get_frame_length set_frame_length)
    from h have nr2: "\<not> r2 <s 0" by blast
    from h eizo_get_value_run [OF d2 _ _ _ _ refl, of K2 k1 usage2 r1 bytes1 k2 r2 ?f k3 pv]
    have "eizo_get_value K2 hdev2 usage2 pv =
        Some (if r2 <s 0 then - ECOMM else 0,
              if r2 <s 0 then pv
              else le32_at (buf_write (buf_write (get_frame usage2 (counter d2)) 39 bytes1) 39 ?f) 7,
              hdev2\<lparr>drvdata := Some (d2\<lparr>lock := False\<rparr>), kern := k3,
                trace := trace hdev2 @ [Kzalloc 39 True, MutexLock,
                   RawRequest (get_write_call usage2 (counter d2)) r1, HwWait,
                   RawRequest (get_read_call (buf_write (get_frame usage2 (counter d2)) 39 bytes1)) r2,
                   HwWait, MutexUnlock, Kfree]\<rparr>)"
      by blast
    with nr2 b show ?thesis by (simp add: set_frame_value)
  qed
  from calls get set_frame_usage [of usage "counter d" val] set_frame_value [of usage "counter d" val]
  show ?thesis by blast
qed

theorem frame_roundtrip_witness:
  "eizo_set_value (stub_kernel True 39 39) attached 0x10 150 = Some (0, after_set_150)
   \<and> transport_calls (new_events attached after_set_150) =
        [(\<lparr>reportnum = 2, buf = set_frame 0x10 1 150, len = 39,
           rtype = HID_FEATURE_REPORT, reqtype = HID_REQ_SET_REPORT\<rparr>, 39)]
   \<and> le32_at (set_frame 0x10 1 150) 1 = 0x10
   \<and> le32_at (set_frame 0x10 1 150) 7 = 150
   \<and> (\<exists>hdev3. eizo_get_value (stub_kernel True 39 39) after_set_150 0x10 0
                 = Some (0, 150, hdev3))"
proof -
  let ?K = "stub_kernel True 39 39" and ?d = "\<lparr>lock = False, counter = 1\<rparr>"
  let ?f = "set_frame 0x10 1 150"
  have t: "transport_calls (new_events attached after_set_150) =
        [(\<lparr>reportnum = 2, buf = ?f, len = 39,
           rtype = HID_FEATURE_REPORT, reqtype = HID_REQ_SET_REPORT\<rparr>, 39)]"
    by (simp add: new_events_def attached_def after_set_150_def set_call_def)
  have h: "hid_get_drvdata after_set_150 = Some ?d \<and> \<not> lock ?d
         \<and> kzalloc ?K (kern after_set_150) 39 = (True, ?f)
         \<and> hid_hw_raw_request ?K ?f (get_write_call 0x10 (counter ?d)) = ((39, []), ?f)
         \<and> \<not> (39 :: s32) <s 0
         \<and> hid_hw_raw_request ?K ?f
              (get_read_call (buf_write (get_frame 0x10 (counter ?d)) 39 []))
             = ((39, ?f), ?f)
         \<and> \<not> (39 :: s32) <s 0"
    by (simp add: hid_get_drvdata_def after_set_150_def get_write_call_def get_read_call_def)
  from frame_roundtrip [OF run_set_150, where ?hdev2.0 = after_set_150 and ?d2.0 = ?d
      and ?K2.0 = ?K and ?k1.0 = ?f and ?usage2.0 = "0x10" and ?r1.0 = 39 and ?bytes1.0 = "[]"
      and ?k2.0 = ?f and ?r2.0 = 39 and ?k3.0 = ?f and pv = 0]
  obtain f ret where
    a: "transport_calls (new_events attached after_set_150) =
        [(\<lparr>reportnum = 2, buf = f, len = 39,
           rtype = HID_FEATURE_REPORT, reqtype = HID_REQ_SET_REPORT\<rparr>, ret)]"
    and u: "le32_at f 1 = 0x10" and v: "le32_at f 7 = 150"
    and g: "hid_get_drvdata after_set_150 = Some ?d \<and> \<not> lock ?d
         \<and> kzalloc ?K (kern after_set_150) 39 = (True, ?f)
         \<and> hid_hw_raw_request ?K ?f (get_write_call 0x10 (counter ?d)) = ((39, []), ?f)
         \<and> \<not> (39 :: s32) <s 0
         \<and> hid_hw_raw_request ?K ?f
              (get_read_call (buf_write (get_frame 0x10 (counter ?d)) 39 []))
             = ((39, f), ?f)
         \<and> \<not> (39 :: s32) <s 0
         \<longrightarrow> (\<exists>hdev3. eizo_get_value ?K after_set_150 0x10 0 = Some (0, 150, hdev3))"
    by blast
  from a t have f: "f = ?f" by simp
  from g h have "\<exists>hdev3. eizo_get_value ?K after_set_150 0x10 0 = Some (0, 150, hdev3)"
    unfolding f by blast
  with run_set_150 t u v show ?thesis unfolding f by blast
qed


section \<open>No session\<close>

text \<open>
  Claim C8. When the driver data lookup returns \<^verbatim>\<open>NULL\<close>, both \<^verbatim>\<open>eizo_set_value\<close> and
  \<^verbatim>\<open>eizo_get_value\<close> return \<^verbatim>\<open>-ENODATA\<close> at once: the device state is returned as it
  was, so the log has no allocation and no transport call, and the caller's
  \<^verbatim>\<open>*value\<close> is as it was.
\<close>

theorem no_session:
  assumes "hid_get_drvdata hdev = None"
  shows "eizo_set_value K hdev usage val = Some (- ENODATA, hdev)
       \<and> eizo_get_value K hdev usage pv = Some (- ENODATA, pv, hdev)"
  using assms
  by (simp add: hid_get_drvdata_def eizo_set_value_no_data eizo_get_value_no_data)

theorem no_session_witness:
  "hid_get_drvdata detached = None
   \<and> eizo_set_value (stub_kernel True 39 39) detached 0x10 150 = Some (- ENODATA, detached)
   \<and> eizo_get_value (stub_kernel True 39 39) detached 0x10 7 = Some (- ENODATA, 7, detached)"
proof -
  have h: "hid_get_drvdata detached = None"
    by (simp add: hid_get_drvdata_def detached_def)
  show ?thesis
    using h no_session [OF h, where K = "stub_kernel True 39 39" and usage = "0x10"
        and val = 150 and pv = 7] by simp
qed


section \<open>Unknown setting names\<close>

text \<open>
  Claim C5. For a setting name that is none of \<^verbatim>\<open>brightness\<close>, \<^verbatim>\<open>power\<close>,
  \<^verbatim>\<open>gamma\<close>, \<^verbatim>\<open>profile\<close>, the lookup \<^verbatim>\<open>to_usage\<close> returns \<open>-1\<close>, and both
  \<^verbatim>\<open>eizo_attr_store\<close> (whatever the payload) and \<^verbatim>\<open>eizo_attr_show\<close> return
  \<^verbatim>\<open>-EINVAL\<close> with the device state and the output buffer as they were: the protocol
  engine is not called and the log gains no transport call.
\<close>

theorem unknown_name_rejected:
  assumes "attr_name \<notin> {''brightness'', ''power'', ''gamma'', ''profile''}"
  shows "to_usage H attr_name = - 1
       \<and> eizo_attr_store K H hdev attr_name buffer count v0 = Some (scast (- EINVAL), hdev)
       \<and> eizo_attr_show K H hdev attr_name page v1 = Some (scast (- EINVAL), page, hdev)"
proof -
  from assms have u: "to_usage H attr_name = - 1"
    by (simp add: to_usage_def)
  have neg: "(- 1 :: s32) <s 0"
    by (simp add: word_sless_alt)
  show ?thesis
    by (simp add: u neg eizo_attr_store_def eizo_attr_show_def split: prod.split)
qed

theorem unknown_name_rejected_witness:
  "to_usage stub_h ''contrast'' = - 1
   \<and> eizo_attr_store (stub_kernel True 39 39) stub_h attached ''contrast'' ''150'' 3 0
       = Some (scast (- EINVAL), attached)
   \<and> eizo_attr_show (stub_kernel True 39 39) stub_h attached ''contrast'' [] 0
       = Some (scast (- EINVAL), [], attached)"
proof -
  have h: "''contrast'' \<notin> {''brightness'', ''power'', ''gamma'', ''profile''}"
    by simp
  show ?thesis
    using unknown_name_rejected [OF h, where H = stub_h and K = "stub_kernel True 39 39"
        and hdev = attached and buffer = "''150''" and count = 3 and ?v0.0 = 0 and page = "[]" and ?v1.0 = 0]
    by simp
qed



section \<open>The frame and the transport call of a set\<close>

text \<open>
  Claim C2. For every usage and value, when \<^verbatim>\<open>eizo_set_value\<close> returns 0 it has made
  exactly one transport call: a \<^verbatim>\<open>SET_REPORT\<close> of a feature report on report
  identifier 2 with 39 bytes. The buffer of that call is the zeroed 39-byte buffer with
  the usage in bytes 1-4, the counter of the driver data in bytes 5-6 and the value in
  bytes 7-10, all little-endian; byte 0 and bytes 11-38 are zero. With the counter at 1
  and the value 150, bytes 5-6 are \<open>01 00\<close> and bytes 7-10 are \<open>96 00 00 00\<close>.
\<close>

theorem set_value_frame_and_send:
  assumes "eizo_set_value K hdev usage val = Some (0, hdev')"
  shows "\<exists>d ret. hid_get_drvdata hdev = Some d
      \<and> new_events hdev hdev' =
          [Kzalloc 39 True, MutexLock,
           RawRequest \<lparr>reportnum = 2, buf = set_frame usage (counter d) val, len = 39,
                       rtype = HID_FEATURE_REPORT, reqtype = HID_REQ_SET_REPORT\<rparr> ret,
           HwWait, MutexUnlock, Kfree]
      \<and> transport_calls (new_events hdev hdev') =
          [(\<lparr>reportnum = 2, buf = set_frame usage (counter d) val, len = 39,
             rtype = HID_FEATURE_REPORT, reqtype = HID_REQ_SET_REPORT\<rparr>, ret)]
      \<and> length (set_frame usage (counter d) val) = 39
      \<and> set_frame usage (counter d) val ! 0 = 0
      \<and> le32_at (set_frame usage (counter d) val) 1 = usage
      \<and> le16_at (set_frame usage (counter d) val) 5 = counter d
      \<and> le32_at (set_frame usage (counter d) val) 7 = val
      \<and> drop 11 (set_frame usage (counter d) val) = replicate 28 0
      \<and> (counter d = 1 \<and> val = 150 \<longrightarrow>
           take 6 (drop 5 (set_frame usage (counter d) val)) = [1, 0, 0x96, 0, 0, 0])"
proof (cases rule: eizo_set_value_cases [where hdev = hdev and K = K and usage = usage and val = val])
  case no_data
  with assms show ?thesis by simp
next
  case (nomem d k1)
  with assms show ?thesis by simp
next
  case (blocked d k1)
  with assms show ?thesis by simp
next
  case (run d k1 ret bytes k2)
  from run(5) assms have h: "hdev' = hdev\<lparr>drvdata := Some (d\<lparr>lock := False\<rparr>), kern := k2,
                    trace := trace hdev @ [Kzalloc 39 True, MutexLock,
                      RawRequest (set_call usage (counter d) val) ret, HwWait,
                      MutexUnlock, Kfree]\<rparr>"
    by simp
  have ev: "new_events hdev hdev' = [Kzalloc 39 True, MutexLock,
                      RawRequest (set_call usage (counter d) val) ret, HwWait,
                      MutexUnlock, Kfree]"
    by (rule new_events_append) (simp add: h)
  show ?thesis
    apply (rule exI [of _ d], rule exI [of _ ret])
    apply (simp only: ev transport_calls.simps set_frame_length set_frame_usage set_frame_value
        set_frame_counter set_frame_tail set_frame_nth hid_get_drvdata_def run(1))
    apply (simp add: set_call_def set_frame_150)
    done
qed

theorem set_value_frame_and_send_witness:
  "eizo_set_value (stub_kernel True 39 39) attached (EIZO_USAGE_BRIGHTNESS stub_h) 150
      = Some (0, after_set_150)
   \<and> transport_calls (new_events attached after_set_150) =
        [(\<lparr>reportnum = 2, buf = set_frame (EIZO_USAGE_BRIGHTNESS stub_h) 1 150, len = 39,
           rtype = HID_FEATURE_REPORT, reqtype = HID_REQ_SET_REPORT\<rparr>, 39)]
   \<and> take 6 (drop 5 (set_frame (EIZO_USAGE_BRIGHTNESS stub_h) 1 150)) = [1, 0, 0x96, 0, 0, 0]"
proof -
  have u: "EIZO_USAGE_BRIGHTNESS stub_h = 0x10"
    by (simp add: stub_h_def)
  have r: "eizo_set_value (stub_kernel True 39 39) attached (EIZO_USAGE_BRIGHTNESS stub_h) 150
      = Some (0, after_set_150)"
    unfolding u by (rule run_set_150)
  from set_value_frame_and_send [OF r] obtain d ret where
    d: "hid_get_drvdata attached = Some d"
    and t: "transport_calls (new_events attached after_set_150) =
          [(\<lparr>reportnum = 2, buf = set_frame (EIZO_USAGE_BRIGHTNESS stub_h) (counter d) 150, len = 39,
             rtype = HID_FEATURE_REPORT, reqtype = HID_REQ_SET_REPORT\<rparr>, ret)]"
    and b: "counter d = 1 \<and> (150 :: s32) = 150 \<longrightarrow>
           take 6 (drop 5 (set_frame (EIZO_USAGE_BRIGHTNESS stub_h) (counter d) 150)) = [1, 0, 0x96, 0, 0, 0]"
    by blast
  from d have c: "counter d = 1"
    by (auto simp add: hid_get_drvdata_def attached_def)
  have "ret = 39"
    using t by (simp add: new_events_def attached_def after_set_150_def)
  with r t b c show ?thesis by simp
qed



section \<open>The two exchanges of a get\<close>

text \<open>
  Claim C3. For every usage: a call of \<^verbatim>\<open>eizo_get_value\<close> on a device that has its
  driver data, whose mutex is free and for which the frame buffer is allocated returns,
  and its transport calls are, in order: a \<^verbatim>\<open>SET_REPORT\<close> on report identifier 3 whose
  buffer carries the usage in bytes 1-4 and zero in bytes 7-10, then a \<^verbatim>\<open>GET_REPORT\<close>
  on report identifier 3 into the same buffer (as the first call left it), and no other.
  When the first call returns a negative value it is the only transport call, and the
  result is \<^verbatim>\<open>-ECOMM\<close>.
\<close>

theorem get_value_exchanges:
  assumes "hid_get_drvdata hdev = Some d" and "\<not> lock d"
    and "kzalloc K (kern hdev) 39 = (True, k1)"
    and "hid_hw_raw_request K k1 (get_write_call usage (counter d)) = ((ret, bytes), k2)"
  shows "(\<exists>r pv' hdev'. eizo_get_value K hdev usage pv = Some (r, pv', hdev')
        \<and> (if ret <s 0
            then r = - ECOMM
               \<and> transport_calls (new_events hdev hdev') =
                   [(get_write_call usage (counter d), ret)]
            else \<exists>ret'. transport_calls (new_events hdev hdev') =
                   [(get_write_call usage (counter d), ret),
                    (get_read_call (buf_write (get_frame usage (counter d)) 39 bytes), ret')]))
      \<and> get_write_call usage (counter d) =
          \<lparr>reportnum = 3, buf = set_frame usage (counter d) 0, len = 39,
           rtype = HID_FEATURE_REPORT, reqtype = HID_REQ_SET_REPORT\<rparr>
      \<and> le32_at (set_frame usage (counter d) 0) 1 = usage
      \<and> le32_at (set_frame usage (counter d) 0) 7 = 0
      \<and> get_read_call (buf_write (get_frame usage (counter d)) 39 bytes) =
          \<lparr>reportnum = 3, buf = buf_write (get_frame usage (counter d)) 39 bytes, len = 39,
           rtype = HID_FEATURE_REPORT, reqtype = HID_REQ_GET_REPORT\<rparr>"
proof -
  from assms(1) have d: "drvdata hdev = Some d"
    by (simp add: hid_get_drvdata_def)
  have calls: "get_write_call usage (counter d) =
          \<lparr>reportnum = 3, buf = set_frame usage (counter d) 0, len = 39,
           rtype = HID_FEATURE_REPORT, reqtype = HID_REQ_SET_REPORT\<rparr>"
    by (simp add: get_write_call_def get_frame_is_set_frame)
  have run: "\<exists>r pv' hdev'. eizo_get_value K hdev usage pv = Some (r, pv', hdev')
        \<and> (if ret <s 0
            then r = - ECOMM
               \<and> transport_calls (new_events hdev hdev') =
                   [(get_write_call usage (counter d), ret)]
            else \<exists>ret'. transport_calls (new_events hdev hdev') =
                   [(get_write_call usage (counter d), ret),
                    (get_read_call (buf_write (get_frame usage (counter d)) 39 bytes), ret')])"
  proof (cases "ret <s 0")
    case True
    show ?thesis
      by (simp add: eizo_get_value_write_fails [OF d assms(2) assms(3) assms(4) True] True)
  next
    case False
    obtain ret' bytes' k3 where
      r': "hid_hw_raw_request K k2
             (get_read_call (buf_write (get_frame usage (counter d)) 39 bytes))
           = ((ret', bytes'), k3)"
      by (metis surj_pair)
    show ?thesis
      by (simp add: eizo_get_value_run [OF d assms(2) assms(3) assms(4) False refl r'] False)
  qed
  have rd: "get_read_call (buf_write (get_frame usage (counter d)) 39 bytes) =
          \<lparr>reportnum = 3, buf = buf_write (get_frame usage (counter d)) 39 bytes, len = 39,
           rtype = HID_FEATURE_REPORT, reqtype = HID_REQ_GET_REPORT\<rparr>"
    by (simp add: get_read_call_def)
  from run calls rd set_frame_usage set_frame_value show ?thesis
    by blast
qed

theorem get_value_exchanges_witness:
  "(\<exists>r pv' hdev'. eizo_get_value (stub_kernel True 39 39) attached 0x10 7 = Some (r, pv', hdev')
      \<and> transport_calls (new_events attached hdev') =
           [(get_write_call 0x10 1, 39), (get_read_call (get_frame 0x10 1), 39)])
   \<and> (\<exists>pv' hdev'. eizo_get_value (stub_kernel True (- 5) 39) attached 0x10 7
         = Some (- ECOMM, pv', hdev')
      \<and> transport_calls (new_events attached hdev') = [(get_write_call 0x10 1, - 5)])"
proof -
  let ?d = "\<lparr>lock = False, counter = 1\<rparr>"
  have d: "hid_get_drvdata attached = Some ?d"
    by (simp add: hid_get_drvdata_def attached_def)
  have l: "\<not> lock ?d" by simp
  have k: "kzalloc (stub_kernel True rs 39) (kern attached) 39 = (True, kern attached)" for rs
    by simp
  have w1: "hid_hw_raw_request (stub_kernel True 39 39) (kern attached)
       (get_write_call 0x10 (counter ?d)) = ((39, []), kern attached)"
    by (simp add: get_write_call_def)
  have w2: "hid_hw_raw_request (stub_kernel True (- 5) 39) (kern attached)
       (get_write_call 0x10 (counter ?d)) = ((- 5, []), kern attached)"
    by (simp add: get_write_call_def)
  have n5: "(- 5 :: s32) <s 0" by (simp add: word_sless_alt)
  from get_value_exchanges [OF d l k w1, of 7] obtain r pv' hdev' ret'
    where a: "eizo_get_value (stub_kernel True 39 39) attached 0x10 7 = Some (r, pv', hdev')"
      "transport_calls (new_events attached hdev') =
           [(get_write_call 0x10 1, 39), (get_read_call (get_frame 0x10 1), ret')]"
    by auto
  have "ret' = 39"
    using a
    by (auto simp add: new_events_def attached_def
        eizo_get_value_run [where d = ?d and ?k1.0 = "replicate 39 0" and ret = 39 and bytes = "[]"
          and ?k2.0 = "replicate 39 0" and ret' = 39 and bytes' = "replicate 39 0" and ?k3.0 = "replicate 39 0"]
        get_write_call_def get_read_call_def)
  with a have A: "\<exists>r pv' hdev'. eizo_get_value (stub_kernel True 39 39) attached 0x10 7 = Some (r, pv', hdev')
      \<and> transport_calls (new_events attached hdev') =
           [(get_write_call 0x10 1, 39), (get_read_call (get_frame 0x10 1), 39)]"
    by blast
  from get_value_exchanges [OF d l k w2, of 7] n5
  have B: "\<exists>pv' hdev'. eizo_get_value (stub_kernel True (- 5) 39) attached 0x10 7
         = Some (- ECOMM, pv', hdev')
      \<and> transport_calls (new_events attached hdev') = [(get_write_call 0x10 1, - 5)]"
    by auto
  from A B show ?thesis by blast
qed



section \<open>Transport failures and the mutex\<close>

text \<open>
  Claim C6. Whenever \<^verbatim>\<open>eizo_set_value\<close> or \<^verbatim>\<open>eizo_get_value\<close> returns: if one of its
  transport calls (the single call of a set, either of the two calls of a get) returned a
  negative value, the result is \<^verbatim>\<open>-ECOMM\<close> and the mutex is free on return; and on
  every path on which the call took the mutex, it took it once and released it once, the
  release being its last action before freeing the buffer, and the mutex is free on
  return, so that a following set or get on the device returns too.
\<close>

theorem lock_released:
  "(\<forall>r hdev'. eizo_set_value K hdev usage val = Some (r, hdev') \<longrightarrow>
      (\<forall>c ret. RawRequest c ret \<in> set (new_events hdev hdev') \<and> ret <s 0 \<longrightarrow>
            r = - ECOMM \<and> (\<exists>d. drvdata hdev' = Some d \<and> \<not> lock d))
       \<and> (MutexLock \<in> set (new_events hdev hdev') \<longrightarrow>
            lock_events (new_events hdev hdev') = [MutexLock, MutexUnlock]
          \<and> (\<exists>es. new_events hdev hdev' = es @ [MutexUnlock, Kfree])
          \<and> (\<exists>d. drvdata hdev' = Some d \<and> \<not> lock d)
          \<and> eizo_set_value K2 hdev' usage2 val2 \<noteq> None
          \<and> eizo_get_value K2 hdev' usage2 pv2 \<noteq> None))
   \<and> (\<forall>r pv' hdev'. eizo_get_value K hdev usage pv = Some (r, pv', hdev') \<longrightarrow>
      (\<forall>c ret. RawRequest c ret \<in> set (new_events hdev hdev') \<and> ret <s 0 \<longrightarrow>
            r = - ECOMM \<and> (\<exists>d. drvdata hdev' = Some d \<and> \<not> lock d))
       \<and> (MutexLock \<in> set (new_events hdev hdev') \<longrightarrow>
            lock_events (new_events hdev hdev') = [MutexLock, MutexUnlock]
          \<and> (\<exists>es. new_events hdev hdev' = es @ [MutexUnlock, Kfree])
          \<and> (\<exists>d. drvdata hdev' = Some d \<and> \<not> lock d)
          \<and> eizo_set_value K2 hdev' usage2 val2 \<noteq> None
          \<and> eizo_get_value K2 hdev' usage2 pv2 \<noteq> None))"
proof (intro conjI allI impI)
  fix r hdev' assume a: "eizo_set_value K hdev usage val = Some (r, hdev')"
  note s = set_mutex_balanced [OF a]
  { fix c ret assume "RawRequest c ret \<in> set (new_events hdev hdev') \<and> ret <s 0"
    with s show "r = - ECOMM" by blast
    from \<open>RawRequest c ret \<in> set (new_events hdev hdev') \<and> ret <s 0\<close> s
    show "\<exists>d. drvdata hdev' = Some d \<and> \<not> lock d" by blast }
  assume m: "MutexLock \<in> set (new_events hdev hdev')"
  with s show "lock_events (new_events hdev hdev') = [MutexLock, MutexUnlock]" by blast
  from m s show "\<exists>es. new_events hdev hdev' = es @ [MutexUnlock, Kfree]" by blast
  from m s show f: "\<exists>d. drvdata hdev' = Some d \<and> \<not> lock d" by blast
  from f show "eizo_set_value K2 hdev' usage2 val2 \<noteq> None"
    by (intro set_returns_when_free) simp
  from f show "eizo_get_value K2 hdev' usage2 pv2 \<noteq> None"
    by (intro get_returns_when_free) simp
next
  fix r pv' hdev' assume a: "eizo_get_value K hdev usage pv = Some (r, pv', hdev')"
  note s = get_mutex_balanced [OF a]
  { fix c ret assume "RawRequest c ret \<in> set (new_events hdev hdev') \<and> ret <s 0"
    with s show "r = - ECOMM" by blast
    from \<open>RawRequest c ret \<in> set (new_events hdev hdev') \<and> ret <s 0\<close> s
    show "\<exists>d. drvdata hdev' = Some d \<and> \<not> lock d" by blast }
  assume m: "MutexLock \<in> set (new_events hdev hdev')"
  with s show "lock_events (new_events hdev hdev') = [MutexLock, MutexUnlock]" by blast
  from m s show "\<exists>es. new_events hdev hdev' = es @ [MutexUnlock, Kfree]" by blast
  from m s show f: "\<exists>d. drvdata hdev' = Some d \<and> \<not> lock d" by blast
  from f show "eizo_set_value K2 hdev' usage2 val2 \<noteq> None"
    by (intro set_returns_when_free) simp
  from f show "eizo_get_value K2 hdev' usage2 pv2 \<noteq> None"
    by (intro get_returns_when_free) simp
qed


theorem lock_released_witness:
  "eizo_set_value (stub_kernel True (- 5) 39) attached 0x10 150 = Some (- ECOMM, after_failed_set)
   \<and> RawRequest (set_call 0x10 1 150) (- 5) \<in> set (new_events attached after_failed_set)
   \<and> lock_events (new_events attached after_failed_set) = [MutexLock, MutexUnlock]
   \<and> (\<exists>d. drvdata after_failed_set = Some d \<and> \<not> lock d)
   \<and> eizo_set_value (stub_kernel True 39 39) after_failed_set 0x10 150 \<noteq> None
   \<and> eizo_get_value (stub_kernel True 39 (- 5)) attached 0x10 7 = Some (- ECOMM, 7, after_failed_get)
   \<and> RawRequest (get_read_call (get_frame 0x10 1)) (- 5) \<in> set (new_events attached after_failed_get)
   \<and> lock_events (new_events attached after_failed_get) = [MutexLock, MutexUnlock]
   \<and> (\<exists>d. drvdata after_failed_get = Some d \<and> \<not> lock d)
   \<and> eizo_get_value (stub_kernel True 39 39) after_failed_get 0x10 7 \<noteq> None"
proof -
  have e1: "RawRequest (set_call 0x10 1 150) (- 5) \<in> set (new_events attached after_failed_set)"
    and m1: "MutexLock \<in> set (new_events attached after_failed_set)"
    by (simp_all add: new_events_def attached_def after_failed_set_def)
  have e2: "RawRequest (get_read_call (get_frame 0x10 1)) (- 5)
              \<in> set (new_events attached after_failed_get)"
    and m2: "MutexLock \<in> set (new_events attached after_failed_get)"
    by (simp_all add: new_events_def attached_def after_failed_get_def)
  from lock_released [where K = "stub_kernel True (- 5) 39" and hdev = attached and usage = "0x10"
      and val = 150 and ?K2.0 = "stub_kernel True 39 39" and ?usage2.0 = "0x10" and ?val2.0 = 150]
    run_failed_set m1
  have A: "lock_events (new_events attached after_failed_set) = [MutexLock, MutexUnlock]
     \<and> (\<exists>d. drvdata after_failed_set = Some d \<and> \<not> lock d)
     \<and> eizo_set_value (stub_kernel True 39 39) after_failed_set 0x10 150 \<noteq> None"
    by blast
  from lock_released [where K = "stub_kernel True 39 (- 5)" and hdev = attached and usage = "0x10"
      and pv = 7 and ?K2.0 = "stub_kernel True 39 39" and ?usage2.0 = "0x10" and ?pv2.0 = 7]
    run_failed_get m2
  have B: "lock_events (new_events attached after_failed_get) = [MutexLock, MutexUnlock]
     \<and> (\<exists>d. drvdata after_failed_get = Some d \<and> \<not> lock d)
     \<and> eizo_get_value (stub_kernel True 39 39) after_failed_get 0x10 7 \<noteq> None"
    by blast
  from A B e1 e2 run_failed_set run_failed_get show ?thesis
    by blast
qed



section \<open>Results of the attribute layer\<close>

text \<open>
  Claim C9. In \<^verbatim>\<open>eizo_attr_store\<close>, a payload for which \<^verbatim>\<open>kstrtoint\<close> at base 10
  returns a negative value gives \<^verbatim>\<open>-EINVAL\<close> with the device state unchanged, so the
  protocol engine has not been called; when the payload parses, the name is known and
  \<^verbatim>\<open>eizo_set_value\<close> of the parsed value returns 0, the result is \<open>count\<close>, the number
  of bytes written. In \<^verbatim>\<open>eizo_attr_show\<close>, when \<^verbatim>\<open>eizo_get_value\<close> returns 0 with the
  value \<open>v\<close>, the output buffer holds \<open>v\<close> in decimal followed by a newline (a string that
  \<^verbatim>\<open>kstrtoint\<close> reads back as \<open>v\<close>) and the result is its length.
\<close>

theorem attr_store_show_results:
  "(fst (kstrtoint buffer v0) <s 0 \<longrightarrow>
       eizo_attr_store K H hdev attr_name buffer count v0 = Some (scast (- EINVAL), hdev))
   \<and> (\<forall>hdev'. \<not> fst (kstrtoint buffer v0) <s 0 \<and> \<not> to_usage H attr_name <s 0
          \<and> eizo_set_value K hdev (to_usage H attr_name) (snd (kstrtoint buffer v0))
              = Some (0, hdev') \<longrightarrow>
        eizo_attr_store K H hdev attr_name buffer count v0 = Some (count, hdev'))
   \<and> (\<forall>v hdev'. \<not> to_usage H attr_name <s 0
          \<and> eizo_get_value K hdev (to_usage H attr_name) v1 = Some (0, v, hdev') \<longrightarrow>
        eizo_attr_show K H hdev attr_name page v1 =
          Some (word_of_nat (length (sprintf_d_nl v)), sprintf_d_nl v, hdev')
        \<and> kstrtoint (sprintf_d_nl v) pv = (0, v)
        \<and> last (sprintf_d_nl v) = CHR 0x0A)"
  by (auto simp add: attr_store_parse_fails attr_store_set attr_show_get kstrtoint_sprintf
      last_sprintf)

theorem attr_store_show_results_witness:
  "eizo_attr_store (stub_kernel True 39 39) stub_h attached ''brightness'' ''abc'' 3 0
     = Some (scast (- EINVAL), attached)
   \<and> eizo_attr_store (stub_kernel True 39 39) stub_h attached ''brightness''
        (''150'' @ [CHR 0x0A]) 4 0 = Some (4, after_set_150)
   \<and> eizo_attr_show (stub_kernel True 39 39) stub_h after_set_150 ''brightness'' [] 0
     = Some (4, ''150'' @ [CHR 0x0A], after_get_150)
   \<and> kstrtoint (''150'' @ [CHR 0x0A]) 0 = (0, 150)"
proof -
  have A: "eizo_attr_store (stub_kernel True 39 39) stub_h attached ''brightness'' ''abc'' 3 0
     = Some (scast (- EINVAL), attached)"
    using attr_store_show_results [where buffer = "''abc''" and ?v0.0 = 0
        and K = "stub_kernel True 39 39" and H = stub_h and hdev = attached
        and attr_name = "''brightness''" and count = 3]
    by (simp add: kstrtoint_abc)
  have B: "eizo_attr_store (stub_kernel True 39 39) stub_h attached ''brightness''
        (''150'' @ [CHR 0x0A]) 4 0 = Some (4, after_set_150)"
    using attr_store_show_results [where buffer = "''150'' @ [CHR 0x0A]" and ?v0.0 = 0
        and K = "stub_kernel True 39 39" and H = stub_h and hdev = attached
        and attr_name = "''brightness''" and count = 4] run_set_150
    by (simp add: kstrtoint_150 stub_brightness del: append.simps)
  have C: "eizo_attr_show (stub_kernel True 39 39) stub_h after_set_150 ''brightness'' [] 0
     = Some (4, ''150'' @ [CHR 0x0A], after_get_150)
     \<and> kstrtoint (''150'' @ [CHR 0x0A]) 0 = (0, 150)"
    using attr_store_show_results [where K = "stub_kernel True 39 39" and H = stub_h
        and hdev = after_set_150 and attr_name = "''brightness''" and page = "[]" and ?v1.0 = 0
        and pv = 0]
      run_get_150 [of 0]
    by (simp add: stub_brightness sprintf_150 del: append.simps)
  from A B C show ?thesis by blast
qed


section \<open>Errors seen through the attribute layer\<close>

text \<open>
  Claim C10. \<^verbatim>\<open>eizo_set_value\<close> and \<^verbatim>\<open>eizo_get_value\<close> return 0,
  \<^verbatim>\<open>-ENODATA\<close>, \<^verbatim>\<open>-ENOMEM\<close> or \<^verbatim>\<open>-ECOMM\<close> and nothing else. Whatever the
  nonzero result of the set is, \<^verbatim>\<open>eizo_attr_store\<close> returns \<^verbatim>\<open>-EPERM\<close>; whatever the
  nonzero result of the get is, \<^verbatim>\<open>eizo_attr_show\<close> returns \<^verbatim>\<open>-ENODATA\<close> and leaves
  the output buffer as it was. \<^verbatim>\<open>eizo_get_value\<close> leaves the caller's \<^verbatim>\<open>*value\<close> as
  it was whenever its result is not 0.
\<close>

theorem attr_errors_collapsed:
  "(\<forall>r hdev'. eizo_set_value K hdev usage val = Some (r, hdev') \<longrightarrow>
       r = 0 \<or> r = - ENODATA \<or> r = - ENOMEM \<or> r = - ECOMM)
   \<and> (\<forall>r hdev'. \<not> fst (kstrtoint buffer v0) <s 0 \<and> \<not> to_usage H attr_name <s 0
          \<and> eizo_set_value K hdev (to_usage H attr_name) (snd (kstrtoint buffer v0))
              = Some (r, hdev')
          \<and> r \<noteq> 0 \<longrightarrow>
        eizo_attr_store K H hdev attr_name buffer count v0 = Some (scast (- EPERM), hdev'))
   \<and> (\<forall>r pv' hdev'. eizo_get_value K hdev usage pv = Some (r, pv', hdev') \<longrightarrow>
        (r = 0 \<or> r = - ENODATA \<or> r = - ENOMEM \<or> r = - ECOMM) \<and> (r \<noteq> 0 \<longrightarrow> pv' = pv))
   \<and> (\<forall>r pv' hdev'. \<not> to_usage H attr_name <s 0
          \<and> eizo_get_value K hdev (to_usage H attr_name) v1 = Some (r, pv', hdev')
          \<and> r \<noteq> 0 \<longrightarrow>
        eizo_attr_show K H hdev attr_name page v1 = Some (scast (- ENODATA), page, hdev'))"
proof (intro conjI allI impI)
  fix r hdev' assume "eizo_set_value K hdev usage val = Some (r, hdev')"
  then show "r = 0 \<or> r = - ENODATA \<or> r = - ENOMEM \<or> r = - ECOMM"
    by (rule set_return_values)
next
  fix r hdev'
  assume "\<not> fst (kstrtoint buffer v0) <s 0 \<and> \<not> to_usage H attr_name <s 0
          \<and> eizo_set_value K hdev (to_usage H attr_name) (snd (kstrtoint buffer v0))
              = Some (r, hdev')
          \<and> r \<noteq> 0"
  then show "eizo_attr_store K H hdev attr_name buffer count v0 = Some (scast (- EPERM), hdev')"
    by (simp add: attr_store_set)
next
  fix r pv' hdev' assume a: "eizo_get_value K hdev usage pv = Some (r, pv', hdev')"
  from get_return_values [OF a] show "r = 0 \<or> r = - ENODATA \<or> r = - ENOMEM \<or> r = - ECOMM"
    by blast
  assume "r \<noteq> 0"
  with get_return_values [OF a] show "pv' = pv" by blast
next
  fix r pv' hdev'
  assume "\<not> to_usage H attr_name <s 0
          \<and> eizo_get_value K hdev (to_usage H attr_name) v1 = Some (r, pv', hdev')
          \<and> r \<noteq> 0"
  then show "eizo_attr_show K H hdev attr_name page v1 = Some (scast (- ENODATA), page, hdev')"
    by (simp add: attr_show_get)
qed


theorem attr_errors_collapsed_witness:
  "eizo_attr_store (stub_kernel True 39 39) stub_h detached ''brightness'' (''150'' @ [CHR 0x0A]) 4 0
     = Some (scast (- EPERM), detached)
   \<and> eizo_attr_store (stub_kernel False 39 39) stub_h attached ''brightness'' (''150'' @ [CHR 0x0A]) 4 0
     = Some (scast (- EPERM), after_nomem)
   \<and> eizo_attr_store (stub_kernel True (- 5) 39) stub_h attached ''brightness'' (''150'' @ [CHR 0x0A]) 4 0
     = Some (scast (- EPERM), after_failed_set)
   \<and> eizo_attr_show (stub_kernel True 39 39) stub_h detached ''brightness'' ''old'' 7
     = Some (scast (- ENODATA), ''old'', detached)
   \<and> eizo_attr_show (stub_kernel True 39 (- 5)) stub_h attached ''brightness'' ''old'' 7
     = Some (scast (- ENODATA), ''old'', after_failed_get)
   \<and> eizo_get_value (stub_kernel True 39 (- 5)) attached 0x10 7 = Some (- ECOMM, 7, after_failed_get)"
proof -
  have d: "drvdata detached = None" by (simp add: detached_def)
  have A: "eizo_attr_store (stub_kernel True 39 39) stub_h detached ''brightness''
      (''150'' @ [CHR 0x0A]) 4 0 = Some (scast (- EPERM), detached)"
    using attr_errors_collapsed [where buffer = "''150'' @ [CHR 0x0A]" and ?v0.0 = 0
        and K = "stub_kernel True 39 39" and H = stub_h and hdev = detached
        and attr_name = "''brightness''" and count = 4]
      eizo_set_value_no_data [OF d, of "stub_kernel True 39 39" "0x10" 150]
    by (simp add: kstrtoint_150 stub_brightness del: append.simps)
  have B: "eizo_attr_store (stub_kernel False 39 39) stub_h attached ''brightness''
      (''150'' @ [CHR 0x0A]) 4 0 = Some (scast (- EPERM), after_nomem)"
    using attr_errors_collapsed [where buffer = "''150'' @ [CHR 0x0A]" and ?v0.0 = 0
        and K = "stub_kernel False 39 39" and H = stub_h and hdev = attached
        and attr_name = "''brightness''" and count = 4]
      run_nomem_set
    by (simp add: kstrtoint_150 stub_brightness del: append.simps)
  have C: "eizo_attr_store (stub_kernel True (- 5) 39) stub_h attached ''brightness''
      (''150'' @ [CHR 0x0A]) 4 0 = Some (scast (- EPERM), after_failed_set)"
    using attr_errors_collapsed [where buffer = "''150'' @ [CHR 0x0A]" and ?v0.0 = 0
        and K = "stub_kernel True (- 5) 39" and H = stub_h and hdev = attached
        and attr_name = "''brightness''" and count = 4]
      run_failed_set
    by (simp add: kstrtoint_150 stub_brightness del: append.simps)
  have D: "eizo_attr_show (stub_kernel True 39 39) stub_h detached ''brightness'' ''old'' 7
     = Some (scast (- ENODATA), ''old'', detached)"
    using attr_errors_collapsed [where K = "stub_kernel True 39 39" and H = stub_h
        and hdev = detached and attr_name = "''brightness''" and page = "''old''" and ?v1.0 = 7]
      eizo_get_value_no_data [OF d, of "stub_kernel True 39 39" "0x10" 7]
    by (simp add: stub_brightness)
  have E: "eizo_attr_show (stub_kernel True 39 (- 5)) stub_h attached ''brightness'' ''old'' 7
     = Some (scast (- ENODATA), ''old'', after_failed_get)"
    using attr_errors_collapsed [where K = "stub_kernel True 39 (- 5)" and H = stub_h
        and hdev = attached and attr_name = "''brightness''" and page = "''old''" and ?v1.0 = 7]
      run_failed_get
    by (simp add: stub_brightness)
  from A B C D E run_failed_get show ?thesis by blast
qed



section \<open>The counter never changes\<close>

text \<open>
  Claim C4. \<^verbatim>\<open>eizo_data_init\<close> sets the counter to 1. After a successful
  \<^verbatim>\<open>eizo_hid_driver_probe\<close> the device has its driver data with the counter at 1, and
  then every run of calls (sets and gets, directly or through the attribute layer)
  returns, leaves the counter at 1, and has sent only frames with \<open>01 00\<close> in bytes 5-6:
  the frame of a set and the frame of a get, each read from the log as the buffer of the
  \<^verbatim>\<open>SET_REPORT\<close> call. From any state at all, a set or a get that returns leaves the
  counter as it found it.
\<close>

theorem counter_constant:
  "counter (eizo_data_init data) = 1
   \<and> (\<forall>hdev. eizo_hid_driver_probe K hdev0 = (0, hdev) \<longrightarrow>
         hid_get_drvdata hdev \<noteq> None \<and> data_counter hdev = 1
       \<and> (\<exists>hdev'. run_calls K H hdev cs = Some hdev'
             \<and> hid_get_drvdata hdev' \<noteq> None \<and> data_counter hdev' = 1
             \<and> (\<forall>c r. (c, r) \<in> set (transport_calls (new_events hdev hdev'))
                     \<and> reqtype c = HID_REQ_SET_REPORT \<longrightarrow> le16_at (buf c) 5 = 1)))
   \<and> (\<forall>r s'. eizo_set_value K s usage val = Some (r, s') \<longrightarrow> data_counter s' = data_counter s)
   \<and> (\<forall>r pv' s'. eizo_get_value K s usage pv = Some (r, pv', s') \<longrightarrow>
         data_counter s' = data_counter s)"
proof (intro conjI allI impI)
  show "counter (eizo_data_init data) = 1"
    by (simp add: eizo_data_init_def)
next
  fix hdev assume p: "eizo_hid_driver_probe K hdev0 = (0, hdev)"
  note i = probe_idle [OF p]
  from i show "hid_get_drvdata hdev \<noteq> None"
    by (auto simp add: session_idle_def hid_get_drvdata_def)
  from i show "data_counter hdev = 1"
    by (auto simp add: session_idle_def data_counter_def)
  from run_calls_idle [OF i, of K H cs] obtain hdev' es where
    r: "run_calls K H hdev cs = Some hdev'" "session_idle hdev' 1"
      "trace hdev' = trace hdev @ es" "counter_frames 1 es"
    by blast
  from r(3) have n: "new_events hdev hdev' = es" by simp
  from r(4) have f: "\<forall>c r. (c, r) \<in> set (transport_calls (new_events hdev hdev'))
       \<and> reqtype c = HID_REQ_SET_REPORT \<longrightarrow> le16_at (buf c) 5 = 1"
    unfolding n counter_frames_def by blast
  from r(2) have "hid_get_drvdata hdev' \<noteq> None" "data_counter hdev' = 1"
    by (auto simp add: session_idle_def hid_get_drvdata_def data_counter_def)
  with r(1) f
  show "\<exists>hdev'. run_calls K H hdev cs = Some hdev'
             \<and> hid_get_drvdata hdev' \<noteq> None \<and> data_counter hdev' = 1
             \<and> (\<forall>c r. (c, r) \<in> set (transport_calls (new_events hdev hdev'))
                     \<and> reqtype c = HID_REQ_SET_REPORT \<longrightarrow> le16_at (buf c) 5 = 1)"
    by blast
next
  fix r s' assume "eizo_set_value K s usage val = Some (r, s')"
  then show "data_counter s' = data_counter s" by (rule set_value_counter)
next
  fix r pv' s' assume "eizo_get_value K s usage pv = Some (r, pv', s')"
  then show "data_counter s' = data_counter s" by (rule get_value_counter)
qed

theorem counter_constant_witness:
  "eizo_hid_driver_probe (stub_kernel True 39 39) detached = (0, attached)
   \<and> data_counter attached = 1
   \<and> run_calls (stub_kernel True 39 39) stub_h attached [SetValue 0x10 150, GetValue 0x10 0]
       = Some after_get_150
   \<and> data_counter after_get_150 = 1
   \<and> (set_call 0x10 1 150, 39) \<in> set (transport_calls (new_events attached after_get_150))
   \<and> le16_at (buf (set_call 0x10 1 150)) 5 = 1
   \<and> (get_write_call 0x10 1, 39) \<in> set (transport_calls (new_events attached after_get_150))
   \<and> le16_at (buf (get_write_call 0x10 1)) 5 = 1"
proof -
  have t: "transport_calls (new_events attached after_get_150) =
      [(set_call 0x10 1 150, 39), (get_write_call 0x10 1, 39),
       (get_read_call (get_frame 0x10 1), 39)]"
    by (simp add: new_events_def attached_def after_get_150_def)
  have s: "reqtype (set_call 0x10 1 150) = HID_REQ_SET_REPORT"
      "reqtype (get_write_call 0x10 1) = HID_REQ_SET_REPORT"
    by (simp_all add: set_call_def get_write_call_def)
  from counter_constant [where K = "stub_kernel True 39 39" and ?hdev0.0 = detached
      and H = stub_h and cs = "[SetValue 0x10 150, GetValue 0x10 0]"]
    probe_stub run_calls_stub
  have c: "data_counter attached = 1" "data_counter after_get_150 = 1"
    "\<forall>c r. (c, r) \<in> set (transport_calls (new_events attached after_get_150))
        \<and> reqtype c = HID_REQ_SET_REPORT \<longrightarrow> le16_at (buf c) 5 = 1"
    by auto
  have m: "(set_call 0x10 1 150, 39) \<in> set (transport_calls (new_events attached after_get_150))"
    "(get_write_call 0x10 1, 39) \<in> set (transport_calls (new_events attached after_get_150))"
    by (simp_all add: t)
  from c(3) m s have "le16_at (buf (set_call 0x10 1 150)) 5 = 1"
    "le16_at (buf (get_write_call 0x10 1)) 5 = 1"
    by blast+
  with c m probe_stub run_calls_stub show ?thesis by blast
qed



section \<open>Calls on one device are serialized\<close>

text \<open>
  Claim C7. Take any number of set and get calls on one device, all about to start with
  the mutex free, and any interleaving of their statements. At every moment: at most one
  call is between \<^verbatim>\<open>mutex_lock\<close> and \<^verbatim>\<open>mutex_unlock\<close>, and the mutex is held exactly when
  one is; a statement that makes a transport call is executed by a call inside that
  region, with the mutex held; in the sequence of all transport calls, the calls of each
  operation are adjacent (the write and the read of a get are never separated by a call of
  another operation); and every transport call carries the frame of the operation that
  makes it: its own usage, value and the counter for the \<^verbatim>\<open>SET_REPORT\<close> of a set or a
  get, a 39-byte buffer on report 3 for the read of a get. The statements are those of
  the two functions: a call running alone through them is \<^verbatim>\<open>eizo_set_value\<close>,
  respectively \<^verbatim>\<open>eizo_get_value\<close>.
\<close>

theorem exchanges_serialized:
  assumes "idle s0"
  shows "let s = run_schedule K s0 sched in
       (\<forall>i<length (ops s). \<forall>j<length (ops s).
           in_cs (snd (ops s ! i)) \<and> in_cs (snd (ops s ! j)) \<longrightarrow> i = j)
     \<and> (mutex_held (device s) \<longleftrightarrow> (\<exists>i<length (ops s). in_cs (snd (ops s ! i))))
     \<and> (\<forall>i s'. sys_step K s i = Some s' \<and> tlog s' \<noteq> tlog s \<longrightarrow>
           in_cs (snd (ops s ! i)) \<and> mutex_held (device s))
     \<and> distinct (remdups_adj (map fst (tlog s)))
     \<and> (\<forall>(i, call, r) \<in> set (tlog s).
           i < length (ops s0) \<and> well_formed (data_counter (device s0)) (fst (ops s0 ! i)) call)
     \<and> eizo_set_value K hdev usage v =
         map_option (\<lambda>(r, _, h). (r, h)) (op_result (op_run 10 K (OpSet usage v) hdev P_entry))
     \<and> eizo_get_value K hdev usage pv = op_result (op_run 10 K (OpGet usage pv) hdev P_entry)"
proof -
  define s where "s = run_schedule K s0 sched"
  have e: "excl_inv s"
    unfolding s_def using idle_excl [OF assms] by (rule run_schedule_excl)
  have f: "frame_inv (data_counter (device s0)) s"
    unfolding s_def using idle_frames [OF assms] by (rule run_schedule_frames)
  have o: "length (ops s) = length (ops s0)" "map fst (ops s) = map fst (ops s0)"
    unfolding s_def using run_schedule_ops [of K s0 sched] by simp_all
  have m: "modes s ! i = mode_of (snd (ops s ! i))" if "i < length (ops s)" for i
    using that by (simp add: modes_def)
  have lm: "length (modes s) = length (ops s)" by (simp add: modes_def)
  from e have a: "ainv (mutex_held (device s)) (modes s) (map fst (tlog s))"
    by (simp add: excl_inv_def)
  have A: "\<forall>i<length (ops s). \<forall>j<length (ops s).
           in_cs (snd (ops s ! i)) \<and> in_cs (snd (ops s ! j)) \<longrightarrow> i = j"
    using ainv_excl [OF a] m lm by (simp add: in_cs_mode)
  have B: "mutex_held (device s) \<longleftrightarrow> (\<exists>i<length (ops s). in_cs (snd (ops s ! i)))"
    using ainv_held [OF a] m lm by (auto simp add: in_cs_mode)
  have C: "\<forall>i s'. sys_step K s i = Some s' \<and> tlog s' \<noteq> tlog s \<longrightarrow>
           in_cs (snd (ops s ! i)) \<and> mutex_held (device s)"
    using sys_step_sends [OF e] by blast
  have D: "distinct (remdups_adj (map fst (tlog s)))"
    by (rule ainv_serial [OF a])
  have E: "\<forall>(i, call, r) \<in> set (tlog s).
           i < length (ops s0) \<and> well_formed (data_counter (device s0)) (fst (ops s0 ! i)) call"
  proof (intro ballI, clarify)
    fix i call r assume "(i, call, r) \<in> set (tlog s)"
    with f have w: "i < length (ops s)" "well_formed (data_counter (device s0)) (fst (ops s ! i)) call"
      unfolding frame_inv_def by blast+
    from w(1) o have "fst (ops s ! i) = fst (ops s0 ! i)"
      by (metis nth_map)
    with w o show "i < length (ops s0)
        \<and> well_formed (data_counter (device s0)) (fst (ops s0 ! i)) call"
      by simp
  qed
  note F = set_value_as_steps [of K hdev usage v] get_value_as_steps [of K hdev usage pv]
  from A B C D E F show ?thesis
    unfolding Let_def s_def [symmetric] by blast
qed


theorem exchanges_serialized_witness:
  "idle two_ops
   \<and> map fst (tlog (run_schedule (stub_kernel True 39 39) two_ops get_first)) = [1, 1, 0]
   \<and> distinct (remdups_adj
        (map fst (tlog (run_schedule (stub_kernel True 39 39) two_ops get_first))))
   \<and> \<not> mutex_held (device (run_schedule (stub_kernel True 39 39) two_ops get_first))"
proof -
  have i: "idle two_ops"
    by (simp add: idle_def two_ops_def mutex_held_def attached_def)
  have "\<not> list_ex (\<lambda>x. in_cs (snd x))
           (ops (run_schedule (stub_kernel True 39 39) two_ops get_first))"
    using two_ops_run by (simp add: in_cs_def)
  then have "\<not> (\<exists>j<length (ops (run_schedule (stub_kernel True 39 39) two_ops get_first)).
           in_cs (snd (ops (run_schedule (stub_kernel True 39 39) two_ops get_first) ! j)))"
    by (simp add: list_ex_length)
  with exchanges_serialized [OF i, of "stub_kernel True 39 39" get_first] two_ops_run i
  show ?thesis
    unfolding Let_def by blast
qed


end
